theory Spec2Isabelle
  imports Complex_Main "HOL-Library.Word"
begin

unbundle bit_operations_syntax

section \<open>JavaScript values used by the two stream classes\<close>

type_synonym byte = "8 word"
type_synonym buffer = "byte list"

text \<open>
  A JavaScript number that is the result of arithmetic on buffer lengths and on the
  configured integers is modelled exactly as a rational; \<open>None\<close> stands for \<open>NaN\<close>
  (and for arithmetic on \<open>undefined\<close>, which gives \<open>NaN\<close>).
\<close>

type_synonym jsnum = "rat option"

text \<open>The errors the code constructs or the runtime raises, each with what it carries.\<close>

datatype jserror =
    Unsupported_PCM_format
  | Init_params_error int
  | Encode_error "string option" int
  | Feed_error int
  | Read_error int
  | Id3_error int
  | AssertionError
  | ReferenceError string
  | RangeError

text \<open>\<open>Math.trunc\<close>, used by the \<open>%\<close> operator and by buffer offsets.\<close>

definition js_trunc :: "rat \<Rightarrow> int" where
  "js_trunc x = (if 0 \<le> x then \<lfloor>x\<rfloor> else \<lceil>x\<rceil>)"

text \<open>\<open>a % b\<close> for a finite \<open>a\<close>: \<open>NaN\<close> when \<open>b\<close> is 0, \<open>NaN\<close> or \<open>undefined\<close>,
  otherwise the remainder of the division truncated towards zero.\<close>

definition js_rem :: "rat \<Rightarrow> jsnum \<Rightarrow> jsnum" where
  "js_rem a b =
     (case b of
        None \<Rightarrow> None
      | Some b' \<Rightarrow> if b' = 0 then None else Some (a - b' * of_int (js_trunc (a / b'))))"

text \<open>\<open>x > 0\<close>: false for \<open>NaN\<close>.\<close>

definition js_gt0 :: "jsnum \<Rightarrow> bool" where
  "js_gt0 x = (case x of None \<Rightarrow> False | Some r \<Rightarrow> 0 < r)"

text \<open>\<open>Buffer.alloc(sz)\<close>: a zero-filled buffer whose length is the integer part of
  \<open>sz\<close>; a negative size is a \<open>RangeError\<close>.\<close>

definition Buffer_alloc :: "rat \<Rightarrow> buffer option" where
  "Buffer_alloc sz = (if sz < 0 then None else Some (replicate (nat (js_trunc sz)) 0))"

text \<open>\<open>buf.slice(start, end)\<close> and \<open>buf.slice(start)\<close> for non-negative offsets: the
  offsets are truncated to integers and clamped to the length.\<close>

definition Buffer_slice :: "buffer \<Rightarrow> rat \<Rightarrow> rat \<Rightarrow> buffer" where
  "Buffer_slice buf start stop = drop (nat (js_trunc start)) (take (nat (js_trunc stop)) buf)"

definition Buffer_slice_from :: "buffer \<Rightarrow> rat \<Rightarrow> buffer" where
  "Buffer_slice_from buf start = drop (nat (js_trunc start)) buf"

text \<open>The buffer handed to an engine call, as the callback finds it: the bytes the engine
  wrote, in a buffer that keeps its allocated length.\<close>

definition filled :: "nat \<Rightarrow> buffer \<Rightarrow> buffer" where
  "filled n written = take n (written @ replicate n 0)"

section \<open>The Encoder\<close>

subsection \<open>The native binding, as far as the Encoder reads it\<close>

text \<open>
  \<open>bindings.js\<close> is the native addon; its constants are parameters of the model.
\<close>

record lame_binding =
  LAME_OKAY :: int
  sizeof_short :: nat
  sizeof_float :: nat
  sizeof_double :: nat

datatype pcm_type = PCM_TYPE_SHORT_INT | PCM_TYPE_FLOAT | PCM_TYPE_DOUBLE

definition SHORT_BITS :: "lame_binding \<Rightarrow> nat" where
  "SHORT_BITS B = sizeof_short B * 8"

definition FLOAT_BITS :: "lame_binding \<Rightarrow> nat" where
  "FLOAT_BITS B = sizeof_float B * 8"

definition DOUBLE_BITS :: "lame_binding \<Rightarrow> nat" where
  "DOUBLE_BITS B = sizeof_double B * 8"

text \<open>Messages for error codes returned from the lame C encoding functions;
  \<open>ERRORS[code]\<close> is \<open>undefined\<close> for any other code.\<close>

definition ERRORS :: "int \<Rightarrow> string option" where
  "ERRORS code =
     (if code = -1 then Some ''output buffer too small''
      else if code = -2 then Some ''malloc() problems''
      else if code = -3 then Some ''lame_init_params() not called''
      else if code = -4 then Some ''psycho acoustic problems''
      else None)"

subsection \<open>Construction\<close>

text \<open>
  The options object of \<open>new Encoder(options)\<close>, with the fields \<open>EncoderOptions\<close>
  declares and the \<open>simpleRate\<close> the constructor reads; \<open>None\<close> is a property that is
  absent (\<open>undefined\<close>).
\<close>

record encoder_options =
  opt_float :: "bool option"
  opt_signed :: "bool option"
  opt_bitDepth :: "nat option"
  opt_channels :: "nat option"
  opt_sampleRate :: "nat option"
  opt_simpleRate :: "nat option"
  opt_bitRate :: "nat option"
  opt_outSampleRate :: "nat option"
  opt_mode :: "nat option"

type_synonym handle = nat

text \<open>
  The fields of an Encoder object. \<open>signedness\<close> is the property \<open>signed\<close>,
  \<open>initCalled\<close> is \<open>_initCalled\<close> and \<open>remainder\<close> is \<open>_remainder\<close>; a \<open>gfp\<close> of
  \<open>None\<close> is \<open>null\<close>, and \<open>None\<close> in the last two fields is a property not yet
  set (or \<open>null\<close>).
\<close>

record encoder =
  gfp :: "handle option"
  inputType :: pcm_type
  channels :: nat
  bitDepth :: nat
  simpleRate :: nat
  signedness :: bool
  initCalled :: bool
  blockAlign :: jsnum
  remainder :: "buffer option"

text \<open>The parameter default \<open>= {}\<close>: the object destructured when no argument is given.\<close>

definition no_options :: encoder_options where
  "no_options = \<lparr>opt_float = None, opt_signed = None, opt_bitDepth = None,
     opt_channels = None, opt_sampleRate = None, opt_simpleRate = None, opt_bitRate = None,
     opt_outSampleRate = None, opt_mode = None\<rparr>"

text \<open>
  The rest element \<open>...options\<close> of the destructuring pattern
  \<open>{ channels = 2, bitDepth = 16, simpleRate = 44100, signed = bitDepth !== 8, ...options }\<close>:
  a copy of the argument without the four properties the pattern names.
\<close>

definition rest_options :: "encoder_options \<Rightarrow> encoder_options" where
  "rest_options arg =
     arg\<lparr>opt_channels := None, opt_bitDepth := None, opt_simpleRate := None, opt_signed := None\<rparr>"

text \<open>\<open>options.float\<close> as a condition: \<open>undefined\<close> and \<open>false\<close> are falsy.\<close>

definition truthy :: "bool option \<Rightarrow> bool" where
  "truthy v = (v = Some True)"

text \<open>\<open>v == n\<close> for a number \<open>n\<close> and a property that is a number or \<open>undefined\<close>:
  \<open>undefined == n\<close> is false.\<close>

definition loose_eq :: "nat option \<Rightarrow> nat \<Rightarrow> bool" where
  "loose_eq v n = (case v of None \<Rightarrow> False | Some m \<Rightarrow> m = n)"

text \<open>
  The constructor. \<open>arg\<close> is the argument (\<open>None\<close> when it is omitted) and \<open>h\<close> the
  handle \<open>binding.lame_init()\<close> returns. The result is the thrown error or the object.
\<close>

definition Encoder_constructor ::
  "lame_binding \<Rightarrow> handle \<Rightarrow> encoder_options option \<Rightarrow> jserror + encoder" where
  "Encoder_constructor B h arg =
     (let a = (case arg of None \<Rightarrow> no_options | Some x \<Rightarrow> x);
          channels' = (case opt_channels a of None \<Rightarrow> 2 | Some c \<Rightarrow> c);
          bitDepth' = (case opt_bitDepth a of None \<Rightarrow> 16 | Some d \<Rightarrow> d);
          simpleRate' = (case opt_simpleRate a of None \<Rightarrow> 44100 | Some s \<Rightarrow> s);
          signed' = (case opt_signed a of None \<Rightarrow> bitDepth' \<noteq> 8 | Some s \<Rightarrow> s);
          options = rest_options a;
          this = \<lparr>gfp = Some h, inputType = PCM_TYPE_SHORT_INT, channels = channels',
                  bitDepth = bitDepth', simpleRate = simpleRate', signedness = signed',
                  initCalled = False, blockAlign = None, remainder = None\<rparr>
      in if truthy (opt_float options) \<and> loose_eq (opt_bitDepth options) (DOUBLE_BITS B)
           then Inr (this\<lparr>inputType := PCM_TYPE_DOUBLE\<rparr>)
         else if truthy (opt_float options) \<and> loose_eq (opt_bitDepth options) (FLOAT_BITS B)
           then Inr (this\<lparr>inputType := PCM_TYPE_FLOAT\<rparr>)
         else if \<not> truthy (opt_float options) \<and> loose_eq (opt_bitDepth options) (SHORT_BITS B)
           then Inr (this\<lparr>inputType := PCM_TYPE_SHORT_INT\<rparr>)
         else Inl Unsupported_PCM_format)"

subsection \<open>What the stage does, as a trace\<close>

text \<open>
  Each method returns the events it causes, in order, and the updated object: the calls
  into the binding (with the handle passed and the arguments that matter), the buffers
  pushed downstream, the call of \<open>done\<close> (with the error, if any) and an exception that
  escapes. \<open>Lame_encode_buffer g chunk type channels numSamples size\<close> is the bulk-encode
  call with an output buffer of \<open>size\<close> bytes; \<open>Lame_encode_flush_nogap g size\<close> the
  flush call.
\<close>

datatype enc_event =
    Lame_init_params "handle option"
  | Lame_encode_buffer "handle option" buffer pcm_type nat rat nat
  | Lame_encode_flush_nogap "handle option" nat
  | Lame_close "handle option"
  | Push buffer
  | Done "jserror option"
  | Throw jserror

text \<open>\<open>_init\<close>; \<open>r\<close> is what \<open>binding.lame_init_params\<close> returns.\<close>

definition Encoder_init :: "lame_binding \<Rightarrow> int \<Rightarrow> encoder \<Rightarrow> jserror + encoder" where
  "Encoder_init B r this =
     (if LAME_OKAY B \<noteq> r then Inl (Init_params_error r)
      else Inr (this\<lparr>blockAlign := Some (of_nat (bitDepth this) / 8 * of_nat (channels this))\<rparr>))"

text \<open>
  The guard that opens both \<open>_transform\<close> and \<open>_flush\<close>:
  \<open>if (!this._initCalled) { try { this._init(); } catch (e) { return done(e); } this._initCalled = true; }\<close>.
  \<open>Inl e\<close> is the early return with \<open>done(e)\<close>.
\<close>

definition ensure_init ::
  "lame_binding \<Rightarrow> int \<Rightarrow> encoder \<Rightarrow> enc_event list \<times> (jserror + encoder)" where
  "ensure_init B r this =
     (if \<not> initCalled this then
        (case Encoder_init B r this of
           Inl e \<Rightarrow> ([Lame_init_params (gfp this)], Inl e)
         | Inr this' \<Rightarrow> ([Lame_init_params (gfp this)], Inr (this'\<lparr>initCalled := True\<rparr>)))
      else ([], Inr this))"

text \<open>
  A callback reads \<open>bytesWritten\<close>. The name is bound when it is one of the callback's
  parameters (no enclosing scope declares it); otherwise reading it is a
  \<open>ReferenceError\<close>.
\<close>

definition lookup_var :: "string list \<Rightarrow> int list \<Rightarrow> string \<Rightarrow> int option" where
  "lookup_var params args name = map_of (zip params args) name"

text \<open>The \<open>if\<close> chain both callbacks end with.\<close>

definition on_bytesWritten :: "buffer \<Rightarrow> int \<Rightarrow> enc_event list" where
  "on_bytesWritten output bytesWritten =
     (if bytesWritten < 0 then [Done (Some (Encode_error (ERRORS bytesWritten) bytesWritten))]
      else if bytesWritten > 0 then [Push (Buffer_slice output 0 (of_int bytesWritten)), Done None]
      else [Done None])"

definition result_callback :: "string list \<Rightarrow> int list \<Rightarrow> buffer \<Rightarrow> enc_event list" where
  "result_callback params args output =
     (case lookup_var params args ''bytesWritten'' of
        None \<Rightarrow> [Throw (ReferenceError ''bytesWritten'')]
      | Some bytesWritten \<Rightarrow> on_bytesWritten output bytesWritten)"

text \<open>
  \<open>_transform(chunk, _encoding, done)\<close>, block by block. First any \<open>_remainder\<close> is
  put in front of the chunk and cleared (a Buffer is truthy even when empty).
\<close>

definition handle_remainder :: "encoder \<Rightarrow> buffer \<Rightarrow> buffer \<times> encoder" where
  "handle_remainder this chunk =
     (case remainder this of
        None \<Rightarrow> (chunk, this)
      | Some left \<Rightarrow> (left @ chunk, this\<lparr>remainder := None\<rparr>))"

text \<open>Then the bytes after the last whole sample become the new \<open>_remainder\<close>.\<close>

definition set_remainder :: "encoder \<Rightarrow> buffer \<Rightarrow> buffer \<times> encoder" where
  "set_remainder this chunk =
     (let remainder' = js_rem (of_nat (length chunk)) (blockAlign this)
      in if js_gt0 remainder' then
           (let slice = of_nat (length chunk) - the remainder'
            in (Buffer_slice chunk 0 slice,
                this\<lparr>remainder := Some (Buffer_slice_from chunk slice)\<rparr>))
         else (chunk, this))"

text \<open>
  Then the assertion, the output buffer and the call of \<open>lame_encode_buffer\<close> with its
  callback. \<open>bw\<close> and \<open>written\<close> are the engine's answer: the value passed to the
  callback and the bytes put into the output buffer.
\<close>

definition encode_chunk :: "int \<Rightarrow> buffer \<Rightarrow> encoder \<Rightarrow> buffer \<Rightarrow> enc_event list" where
  "encode_chunk bw written this chunk =
     (if js_rem (of_nat (length chunk)) (blockAlign this) \<noteq> Some 0 then [Throw AssertionError]
      else
        (let numSamples = of_nat (length chunk) / the (blockAlign this);
             estimatedSize = 5 / 4 * numSamples + 7200
         in case Buffer_alloc estimatedSize of
              None \<Rightarrow> [Throw RangeError]
            | Some output \<Rightarrow>
                [Lame_encode_buffer (gfp this) chunk (inputType this) (channels this)
                   numSamples (length output)]
                @ result_callback [''bytesWritten''] [bw] (filled (length output) written)))"

text \<open>The method; \<open>r\<close> is what \<open>lame_init_params\<close> returns if it is called.\<close>

definition Encoder_transform ::
  "lame_binding \<Rightarrow> int \<Rightarrow> int \<Rightarrow> buffer \<Rightarrow> encoder \<Rightarrow> buffer \<Rightarrow> enc_event list \<times> encoder" where
  "Encoder_transform B r bw written this chunk0 =
     (case ensure_init B r this of
        (evs, Inl e) \<Rightarrow> (evs @ [Done (Some e)], this)
      | (evs, Inr this1) \<Rightarrow>
          (let (chunk1, this2) = handle_remainder this1 chunk0;
               (chunk, this3) = set_remainder this2 chunk1
           in (evs @ encode_chunk bw written this3 chunk, this3)))"

text \<open>
  \<open>_flush(done)\<close>. \<open>r\<close> is what \<open>lame_init_params\<close> returns if it is called; \<open>bw\<close> and
  \<open>written\<close> are the engine's answer to the flush call. The callback is declared with no
  parameter: \<open>() => { ... }\<close>.
\<close>

definition Encoder_flush ::
  "lame_binding \<Rightarrow> int \<Rightarrow> int \<Rightarrow> buffer \<Rightarrow> encoder \<Rightarrow> enc_event list \<times> encoder" where
  "Encoder_flush B r bw written this =
     (let estimated_size = 7200 in
      case Buffer_alloc estimated_size of
        None \<Rightarrow> ([Throw RangeError], this)
      | Some output \<Rightarrow>
          (case ensure_init B r this of
             (evs, Inl e) \<Rightarrow> (evs @ [Done (Some e)], this)
           | (evs, Inr this1) \<Rightarrow>
               (evs @ [Lame_encode_flush_nogap (gfp this1) (length output),
                       Lame_close (gfp this1)]
                    @ result_callback [] [bw] (filled (length output) written),
                this1\<lparr>gfp := None\<rparr>)))"

subsection \<open>A stream's lifetime\<close>

text \<open>
  The stream machinery calls \<open>_transform\<close> once per chunk written and \<open>_flush\<close> once at
  the end of input. A call of \<open>done\<close> with an error, or an exception, destroys the
  stream: no later method call is made.
\<close>

fun is_failure :: "enc_event \<Rightarrow> bool" where
  "is_failure (Done (Some e)) = True"
| "is_failure (Throw e) = True"
| "is_failure _ = False"

definition failed :: "enc_event list \<Rightarrow> bool" where
  "failed evs = list_ex is_failure evs"

text \<open>A write is the chunk together with the engine's answers while it is processed.\<close>

type_synonym enc_write = "buffer \<times> int \<times> int \<times> buffer"

fun Encoder_writes ::
  "lame_binding \<Rightarrow> encoder \<Rightarrow> enc_write list \<Rightarrow> enc_event list \<times> encoder" where
  "Encoder_writes B this [] = ([], this)"
| "Encoder_writes B this ((chunk, r, bw, written) # ws) =
     (let (evs, this1) = Encoder_transform B r bw written this chunk
      in if failed evs then (evs, this1)
         else (let (evs', this2) = Encoder_writes B this1 ws in (evs @ evs', this2)))"

definition Encoder_stream ::
  "lame_binding \<Rightarrow> encoder \<Rightarrow> enc_write list \<Rightarrow> int \<times> int \<times> buffer \<Rightarrow> enc_event list \<times> encoder" where
  "Encoder_stream B this ws answer =
     (let (evs, this1) = Encoder_writes B this ws
      in if failed evs then (evs, this1)
         else (case answer of (r, bw, written) \<Rightarrow>
                 (let (evs', this2) = Encoder_flush B r bw written this1
                  in (evs @ evs', this2))))"

text \<open>The bytes the Remainder Buffer holds: none when \<open>_remainder\<close> is unset or null.\<close>

definition remainder_bytes :: "encoder \<Rightarrow> buffer" where
  "remainder_bytes this = (case remainder this of None \<Rightarrow> [] | Some b \<Rightarrow> b)"

text \<open>The blocks submitted to bulk-encode, the buffers pushed, and the releases of the
  handle in a trace.\<close>

fun submitted :: "enc_event list \<Rightarrow> buffer list" where
  "submitted [] = []"
| "submitted (Lame_encode_buffer g chunk t c n sz # evs) = chunk # submitted evs"
| "submitted (ev # evs) = submitted evs"

fun pushed :: "enc_event list \<Rightarrow> buffer list" where
  "pushed [] = []"
| "pushed (Push b # evs) = b # pushed evs"
| "pushed (ev # evs) = pushed evs"

fun releases :: "enc_event list \<Rightarrow> nat" where
  "releases [] = 0"
| "releases (Lame_close g # evs) = Suc (releases evs)"
| "releases (ev # evs) = releases evs"







text \<open>An Encoder object as the constructor's last four assignments leave it, for a
  16-bit stereo stream of signed integers on handle 1.\<close>

definition stereo16 :: encoder where
  "stereo16 = \<lparr>gfp = Some 1, inputType = PCM_TYPE_SHORT_INT, channels = 2, bitDepth = 16,
     simpleRate = 44100, signedness = True, initCalled = False, blockAlign = None,
     remainder = None\<rparr>"

text \<open>The constants of lame.h and the sizes of a common platform.\<close>

definition lame_h :: lame_binding where
  "lame_h = \<lparr>LAME_OKAY = 0, sizeof_short = 2, sizeof_float = 4, sizeof_double = 8\<rparr>"

section \<open>The Decoder\<close>

text \<open>The constants and the buffer size the Decoder module reads from the binding.\<close>

record mpg123_binding =
  MPG123_OK :: int
  MPG123_DONE :: int
  MPG123_NEW_ID3 :: int
  MPG123_NEED_MORE :: int
  MPG123_NEW_FORMAT :: int
  safeBuffer :: nat

text \<open>What the engine reports: the output format, and an ID3 tag, of which the code
  reads the \<open>tag\<close> property only.\<close>

datatype format = Format int nat nat

record id3_info =
  tag :: "string option"
  other_properties :: "(string \<times> string) list"

datatype dec_event =
    Mpg123_feed buffer nat
  | Mpg123_read nat
  | Mpg123_id3
  | Mpg123_getformat
  | Emit_id3 nat "id3_info option"
  | Emit_format format
  | Push_pcm buffer
  | Dec_done "jserror option"
  | Dec_throw jserror

text \<open>
  What \<open>_transform\<close> is waiting for between two callbacks. While the metadata call is
  outstanding its callback holds the result of the read: the \<open>out\<close> buffer, \<open>ret\<close> and
  \<open>bytes\<close>.
\<close>

datatype pending =
    Awaiting_feed
  | Awaiting_read
  | Awaiting_id3 buffer int int
  | Chunk_done
  | Crashed

text \<open>\<open>a & b\<close>: both operands are converted to 32-bit integers.\<close>

definition js_bitand :: "int \<Rightarrow> int \<Rightarrow> int" where
  "js_bitand a b = sint ((word_of_int a :: 32 word) AND word_of_int b)"

text \<open>A boolean as an operand of \<open>&\<close>.\<close>

definition js_bool :: "bool \<Rightarrow> int" where
  "js_bool b = (if b then 1 else 0)"

text \<open>\<open>id3?.tag\<close> as a condition: falsy when there is no object, no \<open>tag\<close>, or an empty
  string.\<close>

definition has_tag :: "id3_info option \<Rightarrow> bool" where
  "has_tag id3 =
     (case id3 of
        None \<Rightarrow> False
      | Some i \<Rightarrow> (case tag i of None \<Rightarrow> False | Some t \<Rightarrow> t \<noteq> []))"

text \<open>\<open>read\<close>: a fresh \<open>out\<close> buffer of \<open>safeBuffer\<close> bytes and the call of
  \<open>mpg123_read\<close>.\<close>

definition read :: "mpg123_binding \<Rightarrow> dec_event list \<times> pending" where
  "read B = ([Mpg123_read (safeBuffer B)], Awaiting_read)"

text \<open>\<open>handleRead(ret, bytes)\<close>; \<open>out\<close> is the buffer the read filled and \<open>fmt\<close> what
  \<open>mpg123_getformat\<close> returns if it is called.\<close>

definition handleRead ::
  "mpg123_binding \<Rightarrow> format \<Rightarrow> buffer \<Rightarrow> int \<Rightarrow> int \<Rightarrow> dec_event list \<times> pending" where
  "handleRead B fmt out ret bytes =
     (if bytes > 0 \<and> \<not> int (length out) \<ge> bytes then ([Dec_throw AssertionError], Crashed)
      else
        (let data = (if bytes > 0 then [Push_pcm (Buffer_slice out 0 (of_int bytes))] else [])
         in if ret = MPG123_DONE B \<or> ret = MPG123_NEED_MORE B
              then (data @ [Dec_done None], Chunk_done)
            else if ret = MPG123_NEW_FORMAT B
              then (data @ [Mpg123_getformat, Emit_format fmt] @ fst (read B), snd (read B))
            else if MPG123_OK B \<noteq> ret
              then (data @ [Dec_done (Some (Read_error ret))], Chunk_done)
            else (data @ fst (read B), snd (read B))))"

text \<open>
  The callback of \<open>mpg123_read\<close>. Its condition \<open>meta & MPG123_NEW_ID3 !== 0\<close> is
  \<open>meta & (MPG123_NEW_ID3 !== 0)\<close>, since \<open>!==\<close> binds tighter than \<open>&\<close>; when it is
  truthy the callback returns \<open>handleRead(ret, bytes)\<close>, otherwise it calls
  \<open>mpg123_id3\<close>.
\<close>

definition read_callback ::
  "mpg123_binding \<Rightarrow> format \<Rightarrow> buffer \<Rightarrow> int \<Rightarrow> int \<Rightarrow> int \<Rightarrow> dec_event list \<times> pending" where
  "read_callback B fmt out ret bytes meta =
     (if js_bitand meta (js_bool (MPG123_NEW_ID3 B \<noteq> 0)) \<noteq> 0 then handleRead B fmt out ret bytes
      else ([Mpg123_id3], Awaiting_id3 out ret bytes))"

text \<open>The callback of \<open>mpg123_id3\<close>.\<close>

definition id3_callback ::
  "mpg123_binding \<Rightarrow> format \<Rightarrow> buffer \<Rightarrow> int \<Rightarrow> int \<Rightarrow> int \<Rightarrow> id3_info option
     \<Rightarrow> dec_event list \<times> pending" where
  "id3_callback B fmt out ret bytes ret2 id3 =
     (if ret2 = MPG123_OK B then
        (Emit_id3 (if has_tag id3 then 1 else 2) id3 # fst (handleRead B fmt out ret bytes),
         snd (handleRead B fmt out ret bytes))
      else ([Dec_done (Some (Id3_error ret2))], Chunk_done))"

text \<open>The callback of \<open>mpg123_feed\<close>.\<close>

definition feed_callback :: "mpg123_binding \<Rightarrow> int \<Rightarrow> dec_event list \<times> pending" where
  "feed_callback B ret =
     (if MPG123_OK B = ret then read B else ([Dec_done (Some (Feed_error ret))], Chunk_done))"

text \<open>
  The engine's answers, in the order its callbacks fire: the value passed to the feed
  callback; \<open>ret\<close>, \<open>bytes\<close>, \<open>meta\<close> and the bytes written to \<open>out\<close> for a read; \<open>ret2\<close>
  and the tag for a metadata call. Each comes with the format \<open>mpg123_getformat\<close> would
  report while that callback runs. An answer nothing is waiting for is not delivered.
\<close>

datatype answer =
    Feed_answer int
  | Read_answer int int int buffer
  | Id3_answer int "id3_info option"

fun deliver :: "mpg123_binding \<Rightarrow> pending \<Rightarrow> answer \<times> format \<Rightarrow> dec_event list \<times> pending" where
  "deliver B Awaiting_feed (Feed_answer ret, fmt) = feed_callback B ret"
| "deliver B Awaiting_read (Read_answer ret bytes meta written, fmt) =
     read_callback B fmt (filled (safeBuffer B) written) ret bytes meta"
| "deliver B (Awaiting_id3 out ret bytes) (Id3_answer ret2 id3, fmt) =
     id3_callback B fmt out ret bytes ret2 id3"
| "deliver B p a = ([], p)"

fun run :: "mpg123_binding \<Rightarrow> pending \<Rightarrow> (answer \<times> format) list \<Rightarrow> dec_event list \<times> pending" where
  "run B p [] = ([], p)"
| "run B p (a # as) =
     (let (evs, p1) = deliver B p a; (evs', p2) = run B p1 as in (evs @ evs', p2))"

text \<open>\<open>_transform(chunk, _encoding, done)\<close>: the feed call, then whatever the callbacks
  do with the engine's answers.\<close>

definition Decoder_transform ::
  "mpg123_binding \<Rightarrow> buffer \<Rightarrow> (answer \<times> format) list \<Rightarrow> dec_event list \<times> pending" where
  "Decoder_transform B chunk answers =
     (let (evs, p) = run B Awaiting_feed answers
      in (Mpg123_feed chunk (length chunk) # evs, p))"

text \<open>The constants of mpg123.h, with a safe buffer of 73728 bytes.\<close>

definition mpg123_h :: mpg123_binding where
  "mpg123_h = \<lparr>MPG123_OK = 0, MPG123_DONE = -12, MPG123_NEW_ID3 = 1, MPG123_NEED_MORE = -10,
     MPG123_NEW_FORMAT = -11, safeBuffer = 73728\<rparr>"

section \<open>Facts about the Encoder's arithmetic and its trace\<close>

lemma js_trunc_of_nat: "js_trunc (of_nat n) = int n"
  by (simp add: js_trunc_def)

lemma js_trunc_0: "js_trunc 0 = 0"
  by (simp add: js_trunc_def)

lemma js_trunc_div_nat: "js_trunc (of_nat n / of_nat b) = int (n div b)"
  by (simp add: js_trunc_def floor_divide_of_nat_eq)

lemma js_rem_nat:
  assumes "0 < b"
  shows "js_rem (of_nat n) (Some (of_nat b)) = Some (of_nat (n mod b))"
proof -
  have "(of_nat n :: rat) = of_nat (b * (n div b) + n mod b)"
    by simp
  also have "\<dots> = of_nat b * of_nat (n div b) + of_nat (n mod b)"
    by (simp only: of_nat_add of_nat_mult)
  finally have "(of_nat n :: rat) - of_nat b * of_nat (n div b) = of_nat (n mod b)"
    by simp
  with assms show ?thesis
    by (simp add: js_rem_def js_trunc_div_nat)
qed

lemma estimated_size_nat:
  "nat (js_trunc (5 / 4 * of_nat k + 7200)) = 7200 + 5 * k div 4"
proof -
  have nonneg: "(0::rat) \<le> 5 / 4 * of_nat k + 7200"
    by simp
  have "(5 / 4 * of_nat k + 7200 :: rat) = of_nat (5 * k) / of_nat 4 + of_int 7200"
    by simp
  then have "\<lfloor>5 / 4 * of_nat k + 7200 :: rat\<rfloor> = \<lfloor>of_nat (5 * k) / of_nat 4 :: rat\<rfloor> + 7200"
    by (simp only: floor_add_int)
  also have "\<dots> = int (5 * k div 4) + 7200"
    by (simp only: floor_divide_of_nat_eq)
  finally show ?thesis
    using nonneg by (simp add: js_trunc_def)
qed

lemma Buffer_alloc_estimate:
  "Buffer_alloc (5 / 4 * of_nat k + 7200) = Some (replicate (7200 + 5 * k div 4) 0)"
proof -
  have "\<not> (5 / 4 * of_nat k + 7200 :: rat) < 0"
    by (simp add: not_less)
  then show ?thesis
    unfolding Buffer_alloc_def by (simp only: estimated_size_nat if_False)
qed

lemma length_filled: "length (filled n w) = n"
  by (simp add: filled_def)

lemma handle_remainder_eq:
  "handle_remainder this chunk = (remainder_bytes this @ chunk, this\<lparr>remainder := None\<rparr>)"
  by (cases "remainder this") (simp_all add: handle_remainder_def remainder_bytes_def)

lemma set_remainder_nat:
  assumes "blockAlign this = Some (of_nat b)" "0 < b"
  shows "set_remainder this chunk =
     (take (length chunk - length chunk mod b) chunk,
      this\<lparr>remainder := (if 0 < length chunk mod b
                          then Some (drop (length chunk - length chunk mod b) chunk)
                          else remainder this)\<rparr>)"
proof -
  let ?n = "length chunk"
  have rem: "js_rem (of_nat ?n) (blockAlign this) = Some (of_nat (?n mod b))"
    using assms by (simp add: js_rem_nat)
  have slice: "(of_nat ?n :: rat) - of_nat (?n mod b) = of_nat (?n - ?n mod b)"
    by (simp add: of_nat_diff)
  show ?thesis
  proof (cases "0 < ?n mod b")
    case True
    then show ?thesis
      unfolding set_remainder_def rem Let_def js_gt0_def
      by (simp add: slice Buffer_slice_def Buffer_slice_from_def js_trunc_of_nat js_trunc_0
          del: of_nat_diff)
  next
    case False
    then show ?thesis
      unfolding set_remainder_def rem Let_def js_gt0_def by simp
  qed
qed

lemma encode_chunk_nat:
  assumes "blockAlign this = Some (of_nat b)" "0 < b" "length chunk = b * k"
  shows "encode_chunk bw written this chunk =
     [Lame_encode_buffer (gfp this) chunk (inputType this) (channels this) (of_nat k)
        (7200 + 5 * k div 4)]
     @ result_callback [''bytesWritten''] [bw] (filled (7200 + 5 * k div 4) written)"
proof -
  have rem: "js_rem (of_nat (length chunk)) (blockAlign this) = Some 0"
    using js_rem_nat[OF assms(2), of "b * k"] assms by simp
  have samples: "of_nat (length chunk) / the (blockAlign this) = (of_nat k :: rat)"
    using assms by simp
  show ?thesis
    unfolding encode_chunk_def rem samples Let_def Buffer_alloc_estimate
    by simp
qed


lemma transform_step:
  assumes b: "of_nat (bitDepth this) / 8 * of_nat (channels this) = (of_nat b :: rat)" "0 < b"
    and inv: "initCalled this \<longrightarrow> blockAlign this = Some (of_nat b)"
    and r: "initCalled this \<or> r = LAME_OKAY B"
    and n: "n = length (remainder_bytes this @ chunk)"
    and sz: "sz = 7200 + 5 * (n div b) div 4"
  shows "Encoder_transform B r bw written this chunk =
     ((if initCalled this then [] else [Lame_init_params (gfp this)])
        @ [Lame_encode_buffer (gfp this) (take (n - n mod b) (remainder_bytes this @ chunk))
             (inputType this) (channels this) (of_nat (n div b)) sz]
        @ result_callback [''bytesWritten''] [bw] (filled sz written),
      this\<lparr>initCalled := True, blockAlign := Some (of_nat b),
           remainder := (if 0 < n mod b
                         then Some (drop (n - n mod b) (remainder_bytes this @ chunk))
                         else None)\<rparr>)"
proof -
  let ?all = "remainder_bytes this @ chunk"
  define this1 where
    "this1 = (if initCalled this then this
              else this\<lparr>blockAlign := Some (of_nat b), initCalled := True\<rparr>)"
  define this2 where "this2 = this1\<lparr>remainder := None\<rparr>"
  define this3 where
    "this3 = this2\<lparr>remainder := (if 0 < n mod b then Some (drop (n - n mod b) ?all)
                                     else remainder this2)\<rparr>"
  have init: "ensure_init B r this =
      ((if initCalled this then [] else [Lame_init_params (gfp this)]), Inr this1)"
    using b r by (auto simp: ensure_init_def Encoder_init_def this1_def)
  have left: "remainder_bytes this1 = remainder_bytes this"
    by (simp add: this1_def remainder_bytes_def)
  have hr: "handle_remainder this1 chunk = (?all, this2)"
    by (simp add: handle_remainder_eq left this2_def)
  have ba2: "blockAlign this2 = Some (of_nat b)"
    using inv by (simp add: this1_def this2_def)
  have sr: "set_remainder this2 ?all = (take (n - n mod b) ?all, this3)"
    unfolding set_remainder_nat[OF ba2 b(2)] this3_def n ..
  have ba3: "blockAlign this3 = Some (of_nat b)"
    using ba2 by (simp add: this3_def)
  have len: "length (take (n - n mod b) ?all) = b * (n div b)"
  proof -
    have "length (take (n - n mod b) ?all) = min n (n - n mod b)"
      unfolding n by (simp only: length_take)
    also have "\<dots> = b * (n div b)"
      by (simp add: minus_mod_eq_mult_div)
    finally show ?thesis .
  qed
  have same: "gfp this3 = gfp this" "inputType this3 = inputType this"
    "channels this3 = channels this"
    by (simp_all add: this1_def this2_def this3_def)
  have final: "this3 = this\<lparr>initCalled := True, blockAlign := Some (of_nat b),
           remainder := (if 0 < n mod b then Some (drop (n - n mod b) ?all) else None)\<rparr>"
    using inv by (simp add: this1_def this2_def this3_def)
  show ?thesis
    unfolding Encoder_transform_def init
    by (simp only: prod.case sum.case hr sr Let_def encode_chunk_nat[OF ba3 b(2) len]
        same sz append_assoc flip: final)
qed


lemma result_callback_no_call:
  "Lame_encode_buffer g ch t c n sz \<notin> set (result_callback ps as out)"
  by (simp add: result_callback_def on_bytesWritten_def split: option.split)

lemma encode_chunk_call:
  assumes "Lame_encode_buffer g ch t c n sz \<in> set (encode_chunk bw written this chunk)"
  shows "js_rem (of_nat (length chunk)) (blockAlign this) = Some 0 \<and> ch = chunk
     \<and> n = of_nat (length chunk) / the (blockAlign this)
     \<and> sz = nat (js_trunc (5 / 4 * n + 7200)) \<and> g = gfp this"
  using assms
  by (auto simp: encode_chunk_def Let_def Buffer_alloc_def result_callback_no_call
      split: if_splits option.splits)

lemma js_rem_zero:
  assumes "js_rem x b = Some 0"
  shows "\<exists>b'. b = Some b' \<and> b' \<noteq> 0 \<and> x = b' * of_int (js_trunc (x / b'))"
  using assms by (auto simp: js_rem_def split: option.splits if_splits)

lemma whole_frames_call:
  assumes call: "Lame_encode_buffer g ch t c n sz \<in> set (encode_chunk bw written this chunk)"
    and ba: "blockAlign this = Some ba" "0 \<le> ba"
  shows "\<exists>k::nat. of_nat (length ch) = of_nat k * ba \<and> n = of_nat k"
proof -
  let ?x = "of_nat (length chunk) :: rat"
  from encode_chunk_call[OF call] have rem: "js_rem ?x (Some ba) = Some 0"
    and ch: "ch = chunk" and n: "n = ?x / ba"
    using ba by simp_all
  from js_rem_zero[OF rem] have nz: "ba \<noteq> 0" and x: "?x = ba * of_int (js_trunc (?x / ba))"
    by simp_all
  have pos: "0 < ba" using nz ba(2) by simp
  then have q: "0 \<le> ?x / ba" by simp
  define k where "k = nat \<lfloor>?x / ba\<rfloor>"
  have tr: "js_trunc (?x / ba) = int k"
    using q by (simp add: js_trunc_def k_def)
  have xk: "?x = of_nat k * ba"
    using x unfolding tr by (simp add: mult.commute)
  have "n = of_nat k"
    unfolding n using xk nz by simp
  with xk ch show ?thesis by blast
qed

lemma set_remainder_fields:
  "blockAlign (snd (set_remainder this c)) = blockAlign this"
  "initCalled (snd (set_remainder this c)) = initCalled this"
  "bitDepth (snd (set_remainder this c)) = bitDepth this"
  "channels (snd (set_remainder this c)) = channels this"
  "gfp (snd (set_remainder this c)) = gfp this"
  by (simp_all add: set_remainder_def Let_def)

lemma ensure_init_result:
  assumes "initCalled this \<longrightarrow> blockAlign this = Some ba"
    and "ba = of_nat (bitDepth this) / 8 * of_nat (channels this)"
  shows "ensure_init B r this = ([Lame_init_params (gfp this)], Inl (Init_params_error r))
     \<or> ensure_init B r this =
         ((if initCalled this then [] else [Lame_init_params (gfp this)]),
          Inr (this\<lparr>blockAlign := Some ba, initCalled := True\<rparr>))"
proof (cases "initCalled this")
  case True
  with assms(1) have "this\<lparr>blockAlign := Some ba, initCalled := True\<rparr> = this"
    by (cases this) simp
  with True show ?thesis
    by (simp add: ensure_init_def)
next
  case False
  with assms(2) show ?thesis
    by (simp add: ensure_init_def Encoder_init_def)
qed

lemma transform_whole_frames:
  assumes inv: "initCalled this \<longrightarrow> blockAlign this = Some (of_nat (bitDepth this) / 8 * of_nat (channels this))"
    and res: "Encoder_transform B r bw written this chunk = (evs, this')"
  shows "(initCalled this' \<longrightarrow> blockAlign this' = Some (of_nat (bitDepth this) / 8 * of_nat (channels this)))
     \<and> bitDepth this' = bitDepth this \<and> channels this' = channels this
     \<and> (\<forall>g ch t c n sz. Lame_encode_buffer g ch t c n sz \<in> set evs \<longrightarrow>
          (\<exists>k::nat. rat_of_nat (length ch) = of_nat k * (of_nat (bitDepth this) / 8 * of_nat (channels this)) \<and> n = of_nat k))"
proof -
  let ?ba = "of_nat (bitDepth this) / 8 * of_nat (channels this) :: rat"
  let ?evs0 = "if initCalled this then [] else [Lame_init_params (gfp this)]"
  define this1 where "this1 = this\<lparr>blockAlign := Some ?ba, initCalled := True\<rparr>"
  from ensure_init_result[OF inv refl, of B r]
  consider (fail) "ensure_init B r this = ([Lame_init_params (gfp this)], Inl (Init_params_error r))"
    | (ok) "ensure_init B r this = (?evs0, Inr this1)"
    unfolding this1_def by blast
  then show ?thesis
  proof cases
    case fail
    then have "evs = [Lame_init_params (gfp this), Done (Some (Init_params_error r))]" "this' = this"
      using res by (auto simp: Encoder_transform_def)
    with inv show ?thesis by simp
  next
    case ok
    obtain blk this3 where sr:
      "set_remainder (this1\<lparr>remainder := None\<rparr>) (remainder_bytes this1 @ chunk) = (blk, this3)"
      by (cases "set_remainder (this1\<lparr>remainder := None\<rparr>) (remainder_bytes this1 @ chunk)")
    have this3: "this3 = snd (set_remainder (this1\<lparr>remainder := None\<rparr>) (remainder_bytes this1 @ chunk))"
      using sr by simp
    have f3: "blockAlign this3 = Some ?ba" "initCalled this3" "bitDepth this3 = bitDepth this"
      "channels this3 = channels this"
      unfolding this3 set_remainder_fields by (simp_all add: this1_def)
    have out: "evs = ?evs0 @ encode_chunk bw written this3 blk" "this' = this3"
      using res by (auto simp: Encoder_transform_def ok handle_remainder_eq sr)
    have nonneg: "0 \<le> ?ba" by simp
    have "\<exists>k::nat. of_nat (length ch) = of_nat k * ?ba \<and> n = of_nat k"
      if "Lame_encode_buffer g ch t c n sz \<in> set evs" for g ch t c n sz
    proof -
      from that have "Lame_encode_buffer g ch t c n sz \<in> set (encode_chunk bw written this3 blk)"
        unfolding out by (simp split: if_splits)
      from whole_frames_call[OF this f3(1) nonneg] show ?thesis .
    qed
    with f3 out show ?thesis by blast
  qed
qed


lemma result_callback_bound:
  "result_callback [''bytesWritten''] [bw] out = on_bytesWritten out bw"
  by (simp add: result_callback_def lookup_var_def)

lemma result_callback_unbound:
  "result_callback [] args out = [Throw (ReferenceError ''bytesWritten'')]"
  by (simp add: result_callback_def lookup_var_def)

lemma failed_append: "failed (xs @ ys) = (failed xs \<or> failed ys)"
  by (simp add: failed_def)

lemma failed_on_bytesWritten: "failed (on_bytesWritten out bw) = (bw < 0)"
  by (simp add: failed_def on_bytesWritten_def)

lemma submitted_append: "submitted (xs @ ys) = submitted xs @ submitted ys"
  by (induction xs rule: submitted.induct) simp_all

lemma submitted_on_bytesWritten: "submitted (on_bytesWritten out bw) = []"
  by (simp add: on_bytesWritten_def)

lemma writes_whole_frames:
  assumes "initCalled this \<longrightarrow> blockAlign this = Some ba"
    and "ba = of_nat (bitDepth this) / 8 * of_nat (channels this)"
    and "Lame_encode_buffer g ch t c n sz \<in> set (fst (Encoder_writes B this ws))"
  shows "\<exists>k::nat. rat_of_nat (length ch) = of_nat k * ba \<and> n = of_nat k"
  using assms
proof (induction ws arbitrary: this)
  case Nil
  then show ?case by simp
next
  case (Cons w ws)
  obtain chunk r bw written where w: "w = (chunk, r, bw, written)"
    by (cases w)
  obtain evs this1 where tr: "Encoder_transform B r bw written this chunk = (evs, this1)"
    by (cases "Encoder_transform B r bw written this chunk")
  from Cons.prems(1,2) have inv:
    "initCalled this \<longrightarrow> blockAlign this = Some (of_nat (bitDepth this) / 8 * of_nat (channels this))"
    by simp
  note step = transform_whole_frames[OF inv tr]
  from Cons.prems(3) consider
    (here) "Lame_encode_buffer g ch t c n sz \<in> set evs"
    | (later) "Lame_encode_buffer g ch t c n sz \<in> set (fst (Encoder_writes B this1 ws))"
    by (auto simp: w tr split: if_splits prod.splits)
  then show ?case
  proof cases
    case here
    with step Cons.prems(2) show ?thesis by blast
  next
    case later
    have "initCalled this1 \<longrightarrow> blockAlign this1 = Some ba"
      using step Cons.prems(2) by simp
    moreover have "ba = of_nat (bitDepth this1) / 8 * of_nat (channels this1)"
      using step Cons.prems(2) by simp
    ultimately show ?thesis
      using later by (rule Cons.IH)
  qed
qed






lemma transform_step_facts:
  fixes chunk written :: buffer and bw :: int
  assumes b: "of_nat (bitDepth this) / 8 * of_nat (channels this) = (of_nat b :: rat)" "0 < b"
    and inv: "initCalled this \<longrightarrow> blockAlign this = Some (of_nat b)"
    and r: "initCalled this \<or> r = LAME_OKAY B"
  defines "X \<equiv> remainder_bytes this @ chunk"
  defines "m \<equiv> length X - length X mod b"
  defines "res \<equiv> Encoder_transform B r bw written this chunk"
  shows "submitted (fst res) = [take m X]"
    and "remainder_bytes (snd res) = drop m X"
    and "failed (fst res) = (bw < 0)"
    and "bitDepth (snd res) = bitDepth this" "channels (snd res) = channels this"
    and "initCalled (snd res)" "blockAlign (snd res) = Some (of_nat b)"
    and "pushed (fst res) = (if 0 < bw then [Buffer_slice (filled (7200 + 5 * (length X div b) div 4) written) 0 (of_int bw)] else [])"
proof -
  note step = transform_step[where chunk=chunk and bw=bw and written=written,
      OF b inv r refl refl, folded X_def m_def]
  have res: "res = ((if initCalled this then [] else [Lame_init_params (gfp this)])
        @ [Lame_encode_buffer (gfp this) (take m X) (inputType this) (channels this)
             (of_nat (length X div b)) (7200 + 5 * (length X div b) div 4)]
        @ on_bytesWritten (filled (7200 + 5 * (length X div b) div 4) written) bw,
      this\<lparr>initCalled := True, blockAlign := Some (of_nat b),
           remainder := (if 0 < length X mod b then Some (drop m X) else None)\<rparr>)"
    unfolding res_def step result_callback_bound by (simp add: m_def)
  show "submitted (fst res) = [take m X]"
    unfolding res by (simp add: submitted_append submitted_on_bytesWritten)
  show "failed (fst res) = (bw < 0)"
    unfolding res fst_conv failed_append failed_on_bytesWritten by (simp add: failed_def)
  show "remainder_bytes (snd res) = drop m X"
    unfolding res by (simp add: remainder_bytes_def m_def)
  show "bitDepth (snd res) = bitDepth this" "channels (snd res) = channels this"
    "initCalled (snd res)" "blockAlign (snd res) = Some (of_nat b)"
    unfolding res by simp_all
  show "pushed (fst res) = (if 0 < bw then [Buffer_slice (filled (7200 + 5 * (length X div b) div 4) written) 0 (of_int bw)] else [])"
    unfolding res by (simp add: on_bytesWritten_def)
qed






lemma flush_never_completes:
  "pushed (fst (Encoder_flush B r bw written this)) = []"
  "Done None \<notin> set (fst (Encoder_flush B r bw written this))"
  by (auto simp: Encoder_flush_def Let_def Buffer_alloc_def ensure_init_def Encoder_init_def
      result_callback_unbound split: prod.splits sum.splits if_splits)

text \<open>The 16-bit stereo object: four bytes per sample frame.\<close>

lemma stereo16_frame:
  "rat_of_nat (bitDepth stereo16) / 8 * rat_of_nat (channels stereo16) = rat_of_nat 4"
  by (simp add: stereo16_def)

lemma stereo16_transform:
  assumes "n = length chunk" "sz = 7200 + 5 * (n div 4) div 4"
  shows "Encoder_transform lame_h 0 bw written stereo16 chunk =
     ([Lame_init_params (Some 1),
       Lame_encode_buffer (Some 1) (take (n - n mod 4) chunk) PCM_TYPE_SHORT_INT 2
         (of_nat (n div 4)) sz]
      @ on_bytesWritten (filled sz written) bw,
      stereo16\<lparr>initCalled := True, blockAlign := Some 4,
        remainder := (if 0 < n mod 4 then Some (drop (n - n mod 4) chunk) else None)\<rparr>)"
  using transform_step[where this=stereo16 and b=4 and B=lame_h and r=0 and chunk=chunk
      and bw=bw and written=written and n=n and sz=sz, OF stereo16_frame] assms
  by (simp add: stereo16_def lame_h_def remainder_bytes_def result_callback_bound)

lemma transform_call:
  assumes "Lame_encode_buffer g ch t c n sz
      \<in> set (fst (Encoder_transform B r bw written this chunk))"
  shows "\<exists>blk. Lame_encode_buffer g ch t c n sz
      \<in> set (encode_chunk bw written (snd (Encoder_transform B r bw written this chunk)) blk)"
  using assms
  by (auto simp: Encoder_transform_def ensure_init_def Let_def
      split: prod.splits sum.splits if_splits)

lemma encode_chunk_alloc:
  assumes "Lame_encode_buffer g ch t c n sz \<in> set (encode_chunk bw written this chunk)"
  shows "0 \<le> 5 / 4 * n + 7200"
  using assms
  by (auto simp: encode_chunk_def Let_def Buffer_alloc_def result_callback_no_call
      split: if_splits option.splits)

lemma ensure_init_ok:
  assumes "initCalled this \<longrightarrow> blockAlign this = Some ba"
    and "ba = of_nat (bitDepth this) / 8 * of_nat (channels this)"
    and "initCalled this \<or> r = LAME_OKAY B"
  shows "ensure_init B r this =
         ((if initCalled this then [] else [Lame_init_params (gfp this)]),
          Inr (this\<lparr>blockAlign := Some ba, initCalled := True\<rparr>))"
  using ensure_init_result[OF assms(1,2), of B r] assms(3)
  by (auto simp: ensure_init_def Encoder_init_def)

lemma set_remainder_short:
  assumes "blockAlign this = Some ba" "rat_of_nat (length c) < ba"
  shows "set_remainder this c = ([], this\<lparr>remainder := (if c = [] then remainder this else Some c)\<rparr>)"
proof -
  let ?x = "rat_of_nat (length c)"
  have pos: "0 < ba"
    using assms(2) by (rule le_less_trans[rotated]) simp
  have "0 \<le> ?x / ba" "?x / ba < 1"
    using pos assms(2) by simp_all
  then have "\<lfloor>?x / ba\<rfloor> = 0"
    by (simp add: floor_eq_iff)
  then have tr: "js_trunc (?x / ba) = 0"
    using \<open>0 \<le> ?x / ba\<close> by (simp add: js_trunc_def)
  have rem: "js_rem ?x (blockAlign this) = Some ?x"
    using pos by (simp add: js_rem_def assms(1) tr)
  show ?thesis
    unfolding set_remainder_def rem Let_def js_gt0_def
    by (cases c) (simp_all add: Buffer_slice_def Buffer_slice_from_def js_trunc_0)
qed

lemma encode_chunk_empty:
  assumes "blockAlign this = Some ba" "0 < ba"
  shows "encode_chunk bw written this [] =
     [Lame_encode_buffer (gfp this) [] (inputType this) (channels this) 0 7200]
     @ on_bytesWritten (filled 7200 written) bw"
  using assms
  by (simp add: encode_chunk_def js_rem_def js_trunc_def Buffer_alloc_def result_callback_bound)

lemma releases_append: "releases (xs @ ys) = releases xs + releases ys"
  by (induction xs rule: releases.induct) simp_all

lemma encode_chunk_releases: "releases (encode_chunk bw written this chunk) = 0"
  by (simp add: encode_chunk_def Let_def result_callback_bound on_bytesWritten_def
      split: option.split)

lemma ensure_init_releases:
  "releases (fst (ensure_init B r this)) = 0"
  "ensure_init B r this = (evs, Inr this1) \<Longrightarrow> gfp this1 = gfp this"
  by (auto simp: ensure_init_def Encoder_init_def split: if_splits)

lemma transform_never_releases:
  "releases (fst (Encoder_transform B r bw written this chunk)) = 0
   \<and> gfp (snd (Encoder_transform B r bw written this chunk)) = gfp this"
proof -
  obtain evs res where init: "ensure_init B r this = (evs, res)"
    by (cases "ensure_init B r this")
  have evs: "releases evs = 0"
    using ensure_init_releases(1)[of B r this] by (simp add: init)
  show ?thesis
  proof (cases res)
    case (Inl e)
    then show ?thesis
      by (simp add: Encoder_transform_def init releases_append evs)
  next
    case (Inr this1)
    obtain blk this3 where sr:
      "set_remainder (this1\<lparr>remainder := None\<rparr>) (remainder_bytes this1 @ chunk) = (blk, this3)"
      by (cases "set_remainder (this1\<lparr>remainder := None\<rparr>) (remainder_bytes this1 @ chunk)")
    have "gfp this3 = gfp (this1\<lparr>remainder := None\<rparr>)"
      using set_remainder_fields(5)[of "this1\<lparr>remainder := None\<rparr>" "remainder_bytes this1 @ chunk"]
      by (simp add: sr)
    then have g: "gfp this3 = gfp this"
      using ensure_init_releases(2)[OF init[unfolded Inr]] by simp
    show ?thesis
      by (simp add: Encoder_transform_def init Inr handle_remainder_eq sr releases_append evs
          encode_chunk_releases g)
  qed
qed

section \<open>Properties of the Encoder\<close>

text \<open>
  C1. The claim says that construction fails exactly when the configured format is not
  a supported combination, so that a supported combination (and the all-default
  construction) succeeds. The constructor reads \<open>options.bitDepth\<close> from the rest
  object, from which the destructuring pattern has removed \<open>bitDepth\<close>: the property is
  always \<open>undefined\<close>, no branch matches, and every construction throws
  "unsupported PCM format!", for every argument and every size the binding reports.
\<close>

theorem Encoder_constructor_always_throws:
  "Encoder_constructor B h arg = Inl Unsupported_PCM_format"
  by (simp add: Encoder_constructor_def Let_def rest_options_def loose_eq_def)

text \<open>
  C2. The claim says that the handle is released exactly once on every terminating path:
  the normal flush, a flush whose lazy initialization fails, and an encode error in the
  middle of the stream. Only the callback of the flush call closes the handle:
  \<open>_transform\<close> never does, whatever the engine answers. When initialization fails in
  \<open>_flush\<close> the method returns through \<open>done(e)\<close> before the flush call, and when
  \<open>lame_encode_buffer\<close> reports an error \<open>_transform\<close> only calls \<open>done(err)\<close>: on both
  paths the stream ends with no \<open>lame_close\<close> and with the handle still in \<open>gfp\<close>. On
  the normal path the handle is closed once.
\<close>

theorem handle_not_released_on_error_paths:
  "releases (fst (Encoder_transform B r bw written this chunk)) = 0
   \<and> gfp (snd (Encoder_transform B r bw written this chunk)) = gfp this
   \<and> releases (fst (Encoder_stream lame_h stereo16 [] (-1, 0, []))) = 0
   \<and> gfp (snd (Encoder_stream lame_h stereo16 [] (-1, 0, []))) = Some 1
   \<and> fst (Encoder_stream lame_h stereo16 [] (-1, 0, []))
       = [Lame_init_params (Some 1), Done (Some (Init_params_error (-1)))]
   \<and> releases (fst (Encoder_stream lame_h stereo16 [([1, 2, 3, 4], 0, -1, [])] (0, 0, []))) = 0
   \<and> gfp (snd (Encoder_stream lame_h stereo16 [([1, 2, 3, 4], 0, -1, [])] (0, 0, []))) = Some 1
   \<and> fst (Encoder_stream lame_h stereo16 [([1, 2, 3, 4], 0, -1, [])] (0, 0, []))
       = [Lame_init_params (Some 1),
          Lame_encode_buffer (Some 1) [1, 2, 3, 4] PCM_TYPE_SHORT_INT 2 1 7201,
          Done (Some (Encode_error (Some ''output buffer too small'') (-1)))]
   \<and> releases (fst (Encoder_stream lame_h stereo16 [([1, 2, 3, 4], 0, 0, [])] (0, 0, []))) = 1"
proof -
  have "releases (fst (Encoder_stream lame_h stereo16 [] (-1, 0, []))) = 0
   \<and> gfp (snd (Encoder_stream lame_h stereo16 [] (-1, 0, []))) = Some 1
   \<and> fst (Encoder_stream lame_h stereo16 [] (-1, 0, []))
       = [Lame_init_params (Some 1), Done (Some (Init_params_error (-1)))]
   \<and> releases (fst (Encoder_stream lame_h stereo16 [([1, 2, 3, 4], 0, -1, [])] (0, 0, []))) = 0
   \<and> gfp (snd (Encoder_stream lame_h stereo16 [([1, 2, 3, 4], 0, -1, [])] (0, 0, []))) = Some 1
   \<and> fst (Encoder_stream lame_h stereo16 [([1, 2, 3, 4], 0, -1, [])] (0, 0, []))
       = [Lame_init_params (Some 1),
          Lame_encode_buffer (Some 1) [1, 2, 3, 4] PCM_TYPE_SHORT_INT 2 1 7201,
          Done (Some (Encode_error (Some ''output buffer too small'') (-1)))]
   \<and> releases (fst (Encoder_stream lame_h stereo16 [([1, 2, 3, 4], 0, 0, [])] (0, 0, []))) = 1"
    by (simp add: Encoder_stream_def stereo16_transform[where n=4 and sz=7201] on_bytesWritten_def
        failed_def Encoder_flush_def Buffer_alloc_def js_trunc_def ensure_init_def Encoder_init_def
        result_callback_unbound ERRORS_def)
       (simp add: stereo16_def lame_h_def)
  with transform_never_releases[of B r bw written this chunk] show ?thesis
    by blast
qed

text \<open>
  C4. For every sequence of writes to an Encoder, every call of bulk-encode receives a
  whole number \<open>k\<close> of sample frames: the length of the block is \<open>k\<close> times
  \<open>bitDepth / 8 * channels\<close> and the sample count passed is \<open>k\<close>. Concretely, when the
  block alignment is an integer \<open>b > 3\<close>: a first write of \<open>b * 10 + 3\<close> bytes submits
  its first \<open>b * 10\<close> bytes and keeps the last 3 in the Remainder Buffer, and a following
  write of \<open>b - 3\<close> bytes submits those 3 bytes and the new ones, \<open>b\<close> bytes in all, and
  leaves the Remainder Buffer empty.
\<close>

theorem encode_calls_whole_frames:
  assumes "initCalled this \<longrightarrow>
      blockAlign this = Some (of_nat (bitDepth this) / 8 * of_nat (channels this))"
  shows "(\<forall>g ch t c n sz.
            Lame_encode_buffer g ch t c n sz \<in> set (fst (Encoder_writes B this ws)) \<longrightarrow>
            (\<exists>k::nat. rat_of_nat (length ch)
                        = of_nat k * (of_nat (bitDepth this) / 8 * of_nat (channels this))
                      \<and> n = of_nat k))
       \<and> (remainder this = None
            \<and> rat_of_nat (bitDepth this) / 8 * rat_of_nat (channels this) = rat_of_nat b
            \<and> 3 < b \<and> length chunk_a = b * 10 + 3 \<and> length chunk_b = b - 3
            \<and> (initCalled this \<or> r_a = LAME_OKAY B) \<and> 0 \<le> bw_a \<longrightarrow>
          submitted (fst (Encoder_writes B this [(chunk_a, r_a, bw_a, w_a)])) = [take (b * 10) chunk_a]
          \<and> remainder_bytes (snd (Encoder_writes B this [(chunk_a, r_a, bw_a, w_a)])) = drop (b * 10) chunk_a
          \<and> length (drop (b * 10) chunk_a) = 3
          \<and> submitted (fst (Encoder_writes B this [(chunk_a, r_a, bw_a, w_a), (chunk_b, r_b, bw_b, w_b)]))
              = [take (b * 10) chunk_a, drop (b * 10) chunk_a @ chunk_b]
          \<and> length (drop (b * 10) chunk_a @ chunk_b) = b
          \<and> remainder_bytes (snd (Encoder_writes B this [(chunk_a, r_a, bw_a, w_a), (chunk_b, r_b, bw_b, w_b)]))
              = [])"
proof (intro conjI allI impI)
  fix g ch t c n sz
  assume "Lame_encode_buffer g ch t c n sz \<in> set (fst (Encoder_writes B this ws))"
  from writes_whole_frames[OF assms refl this]
  show "\<exists>k::nat. rat_of_nat (length ch)
                        = of_nat k * (of_nat (bitDepth this) / 8 * of_nat (channels this))
                      \<and> n = of_nat k" .
next
  assume hyp: "remainder this = None
            \<and> rat_of_nat (bitDepth this) / 8 * rat_of_nat (channels this) = rat_of_nat b
            \<and> 3 < b \<and> length chunk_a = b * 10 + 3 \<and> length chunk_b = b - 3
            \<and> (initCalled this \<or> r_a = LAME_OKAY B) \<and> 0 \<le> bw_a"
  then have b: "rat_of_nat (bitDepth this) / 8 * rat_of_nat (channels this) = rat_of_nat b"
    and pos: "0 < b" and big: "3 < b" and l1: "length chunk_a = b * 10 + 3" and l2: "length chunk_b = b - 3"
    and r_a: "initCalled this \<or> r_a = LAME_OKAY B" and bw_a: "0 \<le> bw_a"
    and empty: "remainder_bytes this = []"
    by (simp_all add: remainder_bytes_def)
  from assms b have inv: "initCalled this \<longrightarrow> blockAlign this = Some (rat_of_nat b)"
    by simp
  define res1 where "res1 = Encoder_transform B r_a bw_a w_a this chunk_a"
  define res2 where "res2 = Encoder_transform B r_b bw_b w_b (snd res1) chunk_b"
  note f1 = transform_step_facts[where chunk=chunk_a and bw=bw_a and written=w_a,
      OF b pos inv r_a, folded res1_def, unfolded empty append_Nil]
  have m1: "(b * 10 + 3) mod b = 3" "b * 10 + 3 - 3 = b * 10"
    using big by simp_all
  have sub1: "submitted (fst res1) = [take (b * 10) chunk_a]"
    and left1: "remainder_bytes (snd res1) = drop (b * 10) chunk_a"
    and nf1: "\<not> failed (fst res1)"
    using f1(1,2,3) bw_a big by (simp_all add: l1 m1)
  have b2: "rat_of_nat (bitDepth (snd res1)) / 8 * rat_of_nat (channels (snd res1)) = rat_of_nat b"
    using b by (simp add: f1(4,5))
  have inv2: "initCalled (snd res1) \<longrightarrow> blockAlign (snd res1) = Some (rat_of_nat b)"
    by (simp add: f1(7))
  note f2 = transform_step_facts[where chunk=chunk_b and bw=bw_b and written=w_b and r=r_b and B=B,
      OF b2 pos inv2 disjI1[OF f1(6)], folded res2_def, unfolded left1]
  have len3: "length (drop (b * 10) chunk_a) = 3"
    by (simp add: l1)
  have lenb: "length (drop (b * 10) chunk_a @ chunk_b) = b"
    using big by (simp add: l1 l2)
  have sub2: "submitted (fst res2) = [drop (b * 10) chunk_a @ chunk_b]"
    and left2: "remainder_bytes (snd res2) = []"
    using f2(1,2) by (simp_all only: lenb mod_self diff_zero take_all order_refl drop_all)
  have w1': "Encoder_writes B this [(chunk_a, r_a, bw_a, w_a)] = res1"
    by (cases res1) (simp add: res1_def)
  have w2': "Encoder_writes B this [(chunk_a, r_a, bw_a, w_a), (chunk_b, r_b, bw_b, w_b)]
      = (fst res1 @ fst res2, snd res2)"
    using nf1 by (cases res1; cases res2) (simp add: res1_def res2_def)
  show "submitted (fst (Encoder_writes B this [(chunk_a, r_a, bw_a, w_a)])) = [take (b * 10) chunk_a]"
    "remainder_bytes (snd (Encoder_writes B this [(chunk_a, r_a, bw_a, w_a)])) = drop (b * 10) chunk_a"
    "length (drop (b * 10) chunk_a) = 3"
    "submitted (fst (Encoder_writes B this [(chunk_a, r_a, bw_a, w_a), (chunk_b, r_b, bw_b, w_b)]))
              = [take (b * 10) chunk_a, drop (b * 10) chunk_a @ chunk_b]"
    "length (drop (b * 10) chunk_a @ chunk_b) = b"
    "remainder_bytes (snd (Encoder_writes B this [(chunk_a, r_a, bw_a, w_a), (chunk_b, r_b, bw_b, w_b)])) = []"
    unfolding w1' w2' using big
    by (simp_all add: sub1 left1 sub2 left2 submitted_append l1 l2)
qed

text \<open>
  The 16-bit stereo stream of the scenario: 43 bytes, then 1 byte, with four bytes per
  frame.
\<close>

theorem encode_calls_whole_frames_witness:
  "\<not> initCalled stereo16
   \<and> (\<exists>k::nat. rat_of_nat (length (take 40 (replicate 43 (7::byte))))
                  = of_nat k * (of_nat (bitDepth stereo16) / 8 * of_nat (channels stereo16))
                \<and> (10::rat) = of_nat k)
   \<and> submitted (fst (Encoder_writes lame_h stereo16 [(replicate 43 7, 0, 0, [])]))
        = [take (4 * 10) (replicate 43 7)]
   \<and> remainder_bytes (snd (Encoder_writes lame_h stereo16 [(replicate 43 7, 0, 0, [])]))
        = drop (4 * 10) (replicate 43 7)
   \<and> length (drop (4 * 10) (replicate 43 (7::byte))) = 3
   \<and> submitted (fst (Encoder_writes lame_h stereo16 [(replicate 43 7, 0, 0, []), ([7], 0, 0, [])]))
        = [take (4 * 10) (replicate 43 7), drop (4 * 10) (replicate 43 7) @ [7]]
   \<and> length (drop (4 * 10) (replicate 43 (7::byte)) @ [7]) = 4
   \<and> remainder_bytes
         (snd (Encoder_writes lame_h stereo16 [(replicate 43 7, 0, 0, []), ([7], 0, 0, [])])) = []"
proof -
  have inv: "initCalled stereo16 \<longrightarrow>
      blockAlign stereo16 = Some (of_nat (bitDepth stereo16) / 8 * of_nat (channels stereo16))"
    by (simp add: stereo16_def)
  have call: "Lame_encode_buffer (Some 1) (take 40 (replicate 43 7)) PCM_TYPE_SHORT_INT 2 10 7212
      \<in> set (fst (Encoder_writes lame_h stereo16 [(replicate 43 7, 0, 0, [])]))"
    by (simp add: stereo16_transform[where n=43 and sz=7212] on_bytesWritten_def failed_def)
  have hyp: "remainder stereo16 = None
      \<and> rat_of_nat (bitDepth stereo16) / 8 * rat_of_nat (channels stereo16) = rat_of_nat 4
      \<and> 3 < (4::nat) \<and> length (replicate 43 (7::byte)) = 4 * 10 + 3 \<and> length [7::byte] = 4 - 3
      \<and> (initCalled stereo16 \<or> 0 = LAME_OKAY lame_h) \<and> 0 \<le> (0::int)"
    by (simp add: stereo16_def lame_h_def)
  note claim = encode_calls_whole_frames[OF inv, where B=lame_h and b=4
      and ws="[(replicate 43 7, 0, 0, [])]" and chunk_a="replicate 43 7" and chunk_b="[7]"
      and r_a=0 and bw_a=0 and w_a="[]" and r_b=0 and bw_b=0 and w_b="[]"]
  have fresh: "\<not> initCalled stereo16"
    by (simp add: stereo16_def)
  from claim[THEN conjunct1, rule_format, OF call] claim[THEN conjunct2, rule_format, OF hyp] fresh
  show ?thesis by blast
qed

text \<open>
  C5. The claim says that the result of the flush call is handled like the result of
  bulk-encode: an error with the engine's code for a negative result, the trimmed output
  for a positive one, nothing for zero, and completion of the stream in every case. The
  flush callback takes no parameter and reads \<open>bytesWritten\<close>, which nothing declares:
  after closing the handle it throws a \<open>ReferenceError\<close>. Whatever the result, \<open>_flush\<close>
  pushes nothing and never completes the stream with \<open>done()\<close>; with a result of 5
  bytes, or of -1, the trace ends with the exception.
\<close>

theorem flush_result_never_handled:
  "pushed (fst (Encoder_flush B r bw written this)) = []
   \<and> Done None \<notin> set (fst (Encoder_flush B r bw written this))
   \<and> fst (Encoder_flush lame_h 0 5 [1, 2, 3, 4, 5] stereo16)
       = [Lame_init_params (Some 1), Lame_encode_flush_nogap (Some 1) 7200,
          Lame_close (Some 1), Throw (ReferenceError ''bytesWritten'')]
   \<and> fst (Encoder_flush lame_h 0 (-1) [] stereo16)
       = [Lame_init_params (Some 1), Lame_encode_flush_nogap (Some 1) 7200,
          Lame_close (Some 1), Throw (ReferenceError ''bytesWritten'')]"
  using flush_never_completes[of B r bw written this]
  by (simp add: Encoder_flush_def Buffer_alloc_def js_trunc_def ensure_init_def Encoder_init_def
      result_callback_unbound stereo16_def lame_h_def)




text \<open>
  C9, as amended. The output buffer of a bulk-encode call is allocated with
  \<open>Buffer.alloc(1.25 * numSamples + 7200)\<close>, where \<open>numSamples\<close> is the length of the
  block divided by the block alignment: its length is the integer part of that number,
  \<open>floor(1.25 * numSamples) + 7200\<close>, with no rounding up. The flush call gets a buffer
  of 7200 bytes.
\<close>

theorem output_buffer_sizes:
  "(Lame_encode_buffer g ch t c n sz
      \<in> set (fst (Encoder_transform B r bw written this chunk)) \<longrightarrow>
      (\<exists>ba. blockAlign (snd (Encoder_transform B r bw written this chunk)) = Some ba
         \<and> n = rat_of_nat (length ch) / ba
         \<and> int sz = \<lfloor>5 / 4 * n + 7200\<rfloor>
         \<and> int sz = \<lfloor>5 / 4 * n\<rfloor> + 7200))
   \<and> (Lame_encode_flush_nogap g' sz' \<in> set (fst (Encoder_flush B' r' bw' written' this')) \<longrightarrow>
        sz' = 7200)"
proof (intro conjI impI)
  let ?after = "snd (Encoder_transform B r bw written this chunk)"
  assume "Lame_encode_buffer g ch t c n sz
      \<in> set (fst (Encoder_transform B r bw written this chunk))"
  from transform_call[OF this] obtain blk where
    call: "Lame_encode_buffer g ch t c n sz \<in> set (encode_chunk bw written ?after blk)"
    by blast
  note facts = encode_chunk_call[OF call]
  have rem: "js_rem (of_nat (length blk)) (blockAlign ?after) = Some 0"
    and ch: "ch = blk" and n: "n = of_nat (length blk) / the (blockAlign ?after)"
    and sz: "sz = nat (js_trunc (5 / 4 * n + 7200))"
    using facts by blast+
  from js_rem_zero[OF rem] obtain ba where ba: "blockAlign ?after = Some ba"
    by blast
  have nonneg: "0 \<le> 5 / 4 * n + 7200"
    by (rule encode_chunk_alloc[OF call])
  have fl: "0 \<le> \<lfloor>5 / 4 * n + 7200\<rfloor>"
    using nonneg by (simp only: zero_le_floor)
  have tr: "js_trunc (5 / 4 * n + 7200) = \<lfloor>5 / 4 * n + 7200\<rfloor>"
    using nonneg by (simp only: js_trunc_def if_True)
  have 1: "int sz = \<lfloor>5 / 4 * n + 7200\<rfloor>"
    unfolding sz tr by (rule nat_0_le[OF fl])
  have "\<lfloor>5 / 4 * n + 7200\<rfloor> = \<lfloor>5 / 4 * n + of_int 7200\<rfloor>"
    by simp
  also have "\<dots> = \<lfloor>5 / 4 * n\<rfloor> + 7200"
    by (simp only: floor_add_int)
  finally have 2: "int sz = \<lfloor>5 / 4 * n\<rfloor> + 7200"
    using 1 by simp
  show "\<exists>ba. blockAlign ?after = Some ba \<and> n = rat_of_nat (length ch) / ba
         \<and> int sz = \<lfloor>5 / 4 * n + 7200\<rfloor> \<and> int sz = \<lfloor>5 / 4 * n\<rfloor> + 7200"
    using ba n ch 1 2 by simp
next
  assume "Lame_encode_flush_nogap g' sz' \<in> set (fst (Encoder_flush B' r' bw' written' this'))"
  then show "sz' = 7200"
    by (auto simp: Encoder_flush_def Let_def Buffer_alloc_def js_trunc_def ensure_init_def
        result_callback_unbound split: prod.splits sum.splits if_splits)
qed

text \<open>
  One frame of 16-bit stereo input, and the flush of a fresh Encoder.
\<close>

theorem output_buffer_sizes_witness:
  "Lame_encode_buffer (Some 1) [1, 2, 3, 4] PCM_TYPE_SHORT_INT 2 1 7201
      \<in> set (fst (Encoder_transform lame_h 0 0 [] stereo16 [1, 2, 3, 4]))
   \<and> (\<exists>ba. blockAlign (snd (Encoder_transform lame_h 0 0 [] stereo16 [1, 2, 3, 4])) = Some ba
         \<and> (1::rat) = rat_of_nat (length [1, 2, 3, 4 :: byte]) / ba
         \<and> int 7201 = \<lfloor>5 / 4 * (1::rat) + 7200\<rfloor>
         \<and> int 7201 = \<lfloor>5 / 4 * (1::rat)\<rfloor> + 7200)
   \<and> Lame_encode_flush_nogap (Some 1) 7200 \<in> set (fst (Encoder_flush lame_h 0 0 [] stereo16))
   \<and> (7200::nat) = 7200"
proof -
  have call: "Lame_encode_buffer (Some 1) [1, 2, 3, 4] PCM_TYPE_SHORT_INT 2 1 7201
      \<in> set (fst (Encoder_transform lame_h 0 0 [] stereo16 [1, 2, 3, 4]))"
    by (simp add: stereo16_transform[where n=4 and sz=7201])
  have flush: "Lame_encode_flush_nogap (Some 1) 7200
      \<in> set (fst (Encoder_flush lame_h 0 0 [] stereo16))"
    by (simp add: Encoder_flush_def Buffer_alloc_def js_trunc_def ensure_init_def
        Encoder_init_def stereo16_def lame_h_def)
  note claim = output_buffer_sizes[where g="Some 1" and ch="[1, 2, 3, 4]"
      and t=PCM_TYPE_SHORT_INT and c=2 and n=1 and sz=7201 and B=lame_h and r=0 and bw=0
      and written="[]" and this=stereo16 and chunk="[1, 2, 3, 4]" and g'="Some 1" and sz'=7200
      and B'=lame_h and r'=0 and bw'=0 and written'="[]" and this'=stereo16]
  from claim[THEN conjunct1, rule_format, OF call] claim[THEN conjunct2, rule_format, OF flush]
    call flush
  show ?thesis by simp
qed

text \<open>
  C9 as stated fails: for one sample the buffer has 7201 bytes, not
  \<open>ceil(1.25 * 1) + 7200 = 7202\<close>.
\<close>

theorem output_buffer_not_rounded_up:
  "fst (Encoder_transform lame_h 0 0 [] stereo16 [1, 2, 3, 4])
     = [Lame_init_params (Some 1),
        Lame_encode_buffer (Some 1) [1, 2, 3, 4] PCM_TYPE_SHORT_INT 2 1 7201,
        Done None]
   \<and> (7201::nat) \<noteq> nat \<lceil>5 / 4 * (1::rat)\<rceil> + 7200"
proof -
  have "\<lceil>5 / 4 * (1::rat)\<rceil> = 2"
    by (rule ceiling_unique) simp_all
  then show ?thesis
    by (simp add: stereo16_transform[where n=4 and sz=7201] on_bytesWritten_def)
qed

text \<open>
  C10. When the stored remainder and the new chunk together are shorter than one block
  alignment (and initialization has succeeded or succeeds now), bulk-encode is still
  called, with an empty block, a sample count of 0 and an output buffer of 7200 bytes;
  all the bytes become the new remainder; and when the call returns 0 the write
  completes with \<open>done()\<close> and nothing pushed.
\<close>

theorem short_write_is_all_remainder:
  assumes inv: "initCalled this \<longrightarrow> blockAlign this = Some ba"
    and ba: "ba = of_nat (bitDepth this) / 8 * of_nat (channels this)"
    and init: "initCalled this \<or> r = LAME_OKAY B"
    and short: "rat_of_nat (length (remainder_bytes this @ chunk)) < ba"
  shows "fst (Encoder_transform B r bw written this chunk)
           = (if initCalled this then [] else [Lame_init_params (gfp this)])
             @ [Lame_encode_buffer (gfp this) [] (inputType this) (channels this) 0 7200]
             @ on_bytesWritten (filled 7200 written) bw
       \<and> remainder_bytes (snd (Encoder_transform B r bw written this chunk))
           = remainder_bytes this @ chunk
       \<and> fst (Encoder_transform B r 0 written this chunk)
           = (if initCalled this then [] else [Lame_init_params (gfp this)])
             @ [Lame_encode_buffer (gfp this) [] (inputType this) (channels this) 0 7200,
                Done None]"
proof -
  let ?all = "remainder_bytes this @ chunk"
  define this1 where "this1 = this\<lparr>blockAlign := Some ba, initCalled := True\<rparr>"
  define this2 where "this2 = this1\<lparr>remainder := None\<rparr>"
  define this3 where
    "this3 = this2\<lparr>remainder := (if ?all = [] then remainder this2 else Some ?all)\<rparr>"
  have init': "ensure_init B r this =
      ((if initCalled this then [] else [Lame_init_params (gfp this)]), Inr this1)"
    unfolding this1_def by (rule ensure_init_ok[OF inv ba init])
  have left: "remainder_bytes this1 = remainder_bytes this"
    by (simp add: this1_def remainder_bytes_def)
  have hr: "handle_remainder this1 chunk = (?all, this2)"
    by (simp add: handle_remainder_eq left this2_def)
  have ba2: "blockAlign this2 = Some ba"
    by (simp add: this1_def this2_def)
  have sr: "set_remainder this2 ?all = ([], this3)"
    unfolding this3_def by (rule set_remainder_short[OF ba2 short])
  have pos: "0 < ba"
    using short by (rule le_less_trans[rotated]) simp
  have ba3: "blockAlign this3 = Some ba"
    by (simp add: this3_def ba2)
  have same: "gfp this3 = gfp this" "inputType this3 = inputType this"
    "channels this3 = channels this"
    by (simp_all add: this1_def this2_def this3_def)
  have res: "Encoder_transform B r x written this chunk =
      ((if initCalled this then [] else [Lame_init_params (gfp this)])
        @ [Lame_encode_buffer (gfp this) [] (inputType this) (channels this) 0 7200]
        @ on_bytesWritten (filled 7200 written) x, this3)" for x
    unfolding Encoder_transform_def init'
    by (simp only: prod.case sum.case hr sr Let_def encode_chunk_empty[OF ba3 pos] same)
  have kept: "remainder_bytes this3 = ?all"
    by (simp add: this3_def this2_def remainder_bytes_def)
  show ?thesis
    unfolding res fst_conv snd_conv kept by (simp add: on_bytesWritten_def)
qed

text \<open>
  Three bytes written to a fresh 16-bit stereo Encoder.
\<close>

theorem short_write_is_all_remainder_witness:
  "rat_of_nat (length (remainder_bytes stereo16 @ [1, 2, 3]))
      < of_nat (bitDepth stereo16) / 8 * of_nat (channels stereo16)
   \<and> fst (Encoder_transform lame_h 0 0 [] stereo16 [1, 2, 3])
       = [Lame_init_params (Some 1),
          Lame_encode_buffer (Some 1) [] PCM_TYPE_SHORT_INT 2 0 7200, Done None]
   \<and> remainder_bytes (snd (Encoder_transform lame_h 0 0 [] stereo16 [1, 2, 3])) = [1, 2, 3]"
proof -
  have inv: "initCalled stereo16 \<longrightarrow> blockAlign stereo16 = Some 4"
    by (simp add: stereo16_def)
  have ba: "(4::rat) = of_nat (bitDepth stereo16) / 8 * of_nat (channels stereo16)"
    by (simp add: stereo16_def)
  have init: "initCalled stereo16 \<or> 0 = LAME_OKAY lame_h"
    by (simp add: lame_h_def)
  have short: "rat_of_nat (length (remainder_bytes stereo16 @ [1, 2, 3])) < 4"
    by (simp add: stereo16_def remainder_bytes_def)
  from short_write_is_all_remainder[OF inv ba init short, of 0 "[]"] short
  show ?thesis
    by (simp add: stereo16_def remainder_bytes_def on_bytesWritten_def)
qed

section \<open>Facts about the Decoder's callbacks\<close>

lemma handleRead_no_id3: "Mpg123_id3 \<notin> set (fst (handleRead B fmt out ret bytes))"
  by (simp add: handleRead_def read_def Let_def)

lemma js_bitand_1_1: "js_bitand 1 1 = 1"
  by (simp add: js_bitand_def)

lemma js_bitand_0: "js_bitand 0 b = 0"
  by (simp add: js_bitand_def)

lemma run_Chunk_done: "run B Chunk_done answers = ([], Chunk_done)"
  by (induction answers) (simp_all split: prod.splits)

lemma run_append:
  "run B p (xs @ ys) =
     (fst (run B p xs) @ fst (run B (snd (run B p xs)) ys), snd (run B (snd (run B p xs)) ys))"
  by (induction xs arbitrary: p) (simp_all split: prod.splits)

lemma handleRead_new_format:
  assumes "MPG123_NEW_FORMAT B \<noteq> MPG123_DONE B" "MPG123_NEW_FORMAT B \<noteq> MPG123_NEED_MORE B"
    and "bytes \<le> int (length out)"
  shows "handleRead B fmt out (MPG123_NEW_FORMAT B) bytes =
     ((if bytes > 0 then [Push_pcm (Buffer_slice out 0 (of_int bytes))] else [])
        @ [Mpg123_getformat, Emit_format fmt, Mpg123_read (safeBuffer B)],
      Awaiting_read)"
  using assms by (simp add: handleRead_def read_def Let_def)

lemma handleRead_format_only_new:
  assumes "Emit_format f \<in> set (fst (handleRead B fmt out ret bytes))"
  shows "ret = MPG123_NEW_FORMAT B \<and> f = fmt"
  using assms by (auto simp: handleRead_def read_def Let_def split: if_splits)

lemma handleRead_format_shape:
  assumes "fst (handleRead B fmt out ret bytes) = xs @ Emit_format f # ys"
  shows "ret = MPG123_NEW_FORMAT B \<and> f = fmt \<and> ys = [Mpg123_read (safeBuffer B)]
     \<and> (\<exists>pre. xs = pre @ [Mpg123_getformat]) \<and> snd (handleRead B fmt out ret bytes) = Awaiting_read"
proof -
  have mem: "Emit_format f \<in> set (fst (handleRead B fmt out ret bytes))"
    unfolding assms by simp
  note new = handleRead_format_only_new[OF mem]
  let ?data = "if bytes > 0 then [Push_pcm (Buffer_slice out 0 (of_int bytes))] else []"
  have ev: "fst (handleRead B fmt out ret bytes)
      = (?data @ [Mpg123_getformat]) @ Emit_format fmt # [Mpg123_read (safeBuffer B)]"
    and pend: "snd (handleRead B fmt out ret bytes) = Awaiting_read"
    using mem new by (auto simp: handleRead_def read_def Let_def split: if_splits)
  have notin: "Emit_format f \<notin> set (?data @ [Mpg123_getformat])"
    by simp
  have "Emit_format f \<notin> set xs"
  proof
    assume "Emit_format f \<in> set xs"
    then obtain a b where xs: "xs = a @ Emit_format f # b"
      by (auto simp: in_set_conv_decomp)
    have "(?data @ [Mpg123_getformat]) @ Emit_format fmt # [Mpg123_read (safeBuffer B)]
        = a @ Emit_format f # (b @ Emit_format f # ys)"
      using assms unfolding ev xs by simp
    then show False
      using new by (auto simp: append_eq_append_conv2 Cons_eq_append_conv append_eq_Cons_conv
          split: if_splits)
  qed
  with assms[unfolded ev] notin new have "xs = ?data @ [Mpg123_getformat] \<and> ys = [Mpg123_read (safeBuffer B)]"
    by (auto simp: append_eq_append_conv2 Cons_eq_append_conv append_eq_Cons_conv split: if_splits)
  with new pend show ?thesis by blast
qed

lemma deliver_format_shape:
  assumes "fst (deliver B p (a, fmt)) = xs @ Emit_format f # ys"
  shows "f = fmt \<and> ys = [Mpg123_read (safeBuffer B)] \<and> (\<exists>pre. xs = pre @ [Mpg123_getformat])
     \<and> snd (deliver B p (a, fmt)) = Awaiting_read
     \<and> ((\<exists>bytes meta written.
            p = Awaiting_read \<and> a = Read_answer (MPG123_NEW_FORMAT B) bytes meta written)
         \<or> (\<exists>out bytes info.
            p = Awaiting_id3 out (MPG123_NEW_FORMAT B) bytes \<and> a = Id3_answer (MPG123_OK B) info))"
proof (cases p)
  case Awaiting_feed
  with assms show ?thesis
    by (cases a) (auto simp: feed_callback_def read_def Cons_eq_append_conv split: if_splits)
next
  case Awaiting_read
  show ?thesis
  proof (cases a)
    case (Read_answer ret bytes meta written)
    show ?thesis
    proof (cases "js_bitand meta (js_bool (MPG123_NEW_ID3 B \<noteq> 0)) \<noteq> 0")
      case True
      with assms have "fst (handleRead B fmt (filled (safeBuffer B) written) ret bytes)
          = xs @ Emit_format f # ys"
        by (simp add: Awaiting_read Read_answer read_callback_def)
      from handleRead_format_shape[OF this] True show ?thesis
        by (auto simp: Awaiting_read Read_answer read_callback_def)
    next
      case False
      with assms show ?thesis
        by (simp add: Awaiting_read Read_answer read_callback_def Cons_eq_append_conv)
    qed
  qed (use assms Awaiting_read in simp_all)
next
  case (Awaiting_id3 out ret bytes)
  show ?thesis
  proof (cases a)
    case (Id3_answer ret2 info)
    show ?thesis
    proof (cases "ret2 = MPG123_OK B")
      case True
      with assms have eq: "Emit_id3 (if has_tag info then 1 else 2) info
          # fst (handleRead B fmt out ret bytes) = xs @ Emit_format f # ys"
        by (simp add: Awaiting_id3 Id3_answer id3_callback_def)
      then obtain xs' where xs: "xs = Emit_id3 (if has_tag info then 1 else 2) info # xs'"
        and hr: "fst (handleRead B fmt out ret bytes) = xs' @ Emit_format f # ys"
        by (cases xs) auto
      from handleRead_format_shape[OF hr] True show ?thesis
        by (auto simp: Awaiting_id3 Id3_answer id3_callback_def xs)
    next
      case False
      with assms show ?thesis
        by (simp add: Awaiting_id3 Id3_answer id3_callback_def Cons_eq_append_conv)
    qed
  qed (use assms Awaiting_id3 in simp_all)
next
  case Chunk_done
  with assms show ?thesis by simp
next
  case Crashed
  with assms show ?thesis by simp
qed

lemma run_format_shape:
  assumes "fst (run B p answers) = xs @ Emit_format f # ys"
  shows "\<exists>before a later pre.
      answers = before @ (a, f) # later
      \<and> xs = fst (run B p before) @ pre @ [Mpg123_getformat]
      \<and> ys = Mpg123_read (safeBuffer B) # fst (run B Awaiting_read later)
      \<and> ((\<exists>bytes meta written.
             snd (run B p before) = Awaiting_read
             \<and> a = Read_answer (MPG123_NEW_FORMAT B) bytes meta written)
          \<or> (\<exists>out bytes info.
             snd (run B p before) = Awaiting_id3 out (MPG123_NEW_FORMAT B) bytes
             \<and> a = Id3_answer (MPG123_OK B) info))"
  using assms
proof (induction answers arbitrary: p xs)
  case Nil
  then show ?case by simp
next
  case (Cons af as)
  obtain a0 fmt where af: "af = (a0, fmt)"
    by (cases af)
  let ?e = "fst (deliver B p (a0, fmt))"
  let ?q = "snd (deliver B p (a0, fmt))"
  have tr: "fst (run B p (af # as)) = ?e @ fst (run B ?q as)"
    by (simp add: af split: prod.splits)
  from Cons.prems[unfolded tr] consider
    (later) us where "xs = ?e @ us" "fst (run B ?q as) = us @ Emit_format f # ys"
    | (here) us where "?e = xs @ Emit_format f # us" "ys = us @ fst (run B ?q as)"
    by (auto simp: append_eq_append_conv2 Cons_eq_append_conv append_eq_Cons_conv)
  then show ?case
  proof cases
    case later
    from Cons.IH[OF later(2)] obtain before a laterr pre where
      1: "as = before @ (a, f) # laterr"
      and 2: "us = fst (run B ?q before) @ pre @ [Mpg123_getformat]"
      and 3: "ys = Mpg123_read (safeBuffer B) # fst (run B Awaiting_read laterr)"
      and 4: "(\<exists>bytes meta written.
             snd (run B ?q before) = Awaiting_read
             \<and> a = Read_answer (MPG123_NEW_FORMAT B) bytes meta written)
          \<or> (\<exists>out bytes info.
             snd (run B ?q before) = Awaiting_id3 out (MPG123_NEW_FORMAT B) bytes
             \<and> a = Id3_answer (MPG123_OK B) info)"
      by blast
    have r: "fst (run B p (af # before)) = ?e @ fst (run B ?q before)"
      "snd (run B p (af # before)) = snd (run B ?q before)"
      by (simp_all add: af split: prod.splits)
    have "af # as = (af # before) @ (a, f) # laterr"
      using 1 by simp
    moreover have "xs = fst (run B p (af # before)) @ pre @ [Mpg123_getformat]"
      unfolding r later(1) 2 by simp
    ultimately show ?thesis
      using 3 4 unfolding r(2)[symmetric] by blast
  next
    case here
    note shape = deliver_format_shape[OF here(1)]
    have "af # as = [] @ (a0, f) # as"
      using shape by (simp add: af)
    moreover obtain pre where "xs = fst (run B p []) @ pre @ [Mpg123_getformat]"
      using shape by auto
    moreover have "ys = Mpg123_read (safeBuffer B) # fst (run B Awaiting_read as)"
      using shape here(2) by simp
    moreover have "(\<exists>bytes meta written.
             snd (run B p []) = Awaiting_read
             \<and> a0 = Read_answer (MPG123_NEW_FORMAT B) bytes meta written)
          \<or> (\<exists>out bytes info.
             snd (run B p []) = Awaiting_id3 out (MPG123_NEW_FORMAT B) bytes
             \<and> a0 = Id3_answer (MPG123_OK B) info)"
      using shape by simp
    ultimately show ?thesis by blast
  qed
qed

section \<open>Properties of the Decoder\<close>

text \<open>
  C3. The claim says that the read callback fetches the metadata if and only if the
  new-ID3 bit is set in the event flags. The callback does the opposite: when
  \<open>meta & (MPG123_NEW_ID3 !== 0)\<close> is non-zero it returns \<open>handleRead(ret, bytes)\<close>
  at once, and it calls \<open>mpg123_id3\<close> when that value is zero. With the constants of
  mpg123.h, flags of 1 (the new-ID3 bit) lead to no metadata call, and flags of 0 lead to
  one.
\<close>

theorem metadata_fetched_when_bit_clear:
  "(Mpg123_id3 \<in> set (fst (read_callback B fmt out ret bytes meta)))
     = (js_bitand meta (js_bool (MPG123_NEW_ID3 B \<noteq> 0)) = 0)
   \<and> read_callback mpg123_h fmt out ret bytes 1 = handleRead mpg123_h fmt out ret bytes
   \<and> read_callback mpg123_h fmt out ret bytes 0 = ([Mpg123_id3], Awaiting_id3 out ret bytes)"
  by (simp add: read_callback_def handleRead_no_id3 mpg123_h_def js_bool_def js_bitand_1_1
      js_bitand_0)

text \<open>
  C7. When the status that reaches \<open>handleRead\<close> is \<open>MPG123_NEW_FORMAT\<close> (a code other
  than DONE and NEED_MORE), the stage pushes the bytes that came with that result, asks
  the engine for the format, emits the format event with it and issues the next read:
  the chunk is not ended. In a run, whether the status arrives straight from the read
  callback or after the metadata callback, everything done for the later answers, and so
  every buffer of samples decoded by a later read, comes after the format event.
  Conversely a format event is emitted for no other status: \<open>handleRead\<close> emits one
  only when the status is \<open>MPG123_NEW_FORMAT\<close>, with the format the engine reports; and
  every format event in the trace of any run was caused by an answer that handed that
  status to \<open>handleRead\<close>, comes right after the \<open>mpg123_getformat\<close> call, and is followed
  by the next read and then by exactly what the later answers cause.
\<close>

theorem format_event_before_later_pcm:
  "(MPG123_NEW_FORMAT B \<noteq> MPG123_DONE B \<and> MPG123_NEW_FORMAT B \<noteq> MPG123_NEED_MORE B
      \<and> bytes \<le> int (length out) \<longrightarrow>
      handleRead B fmt out (MPG123_NEW_FORMAT B) bytes =
        ((if bytes > 0 then [Push_pcm (Buffer_slice out 0 (of_int bytes))] else [])
           @ [Mpg123_getformat, Emit_format fmt, Mpg123_read (safeBuffer B)],
         Awaiting_read))
   \<and> (MPG123_NEW_FORMAT B \<noteq> MPG123_DONE B \<and> MPG123_NEW_FORMAT B \<noteq> MPG123_NEED_MORE B
      \<and> snd (run B p before) = Awaiting_read \<and> bytes \<le> int (safeBuffer B)
      \<and> js_bitand meta (js_bool (MPG123_NEW_ID3 B \<noteq> 0)) \<noteq> 0 \<longrightarrow>
      run B p (before @ (Read_answer (MPG123_NEW_FORMAT B) bytes meta written, fmt) # later) =
        (fst (run B p before)
           @ (if bytes > 0
              then [Push_pcm (Buffer_slice (filled (safeBuffer B) written) 0 (of_int bytes))]
              else [])
           @ [Mpg123_getformat, Emit_format fmt, Mpg123_read (safeBuffer B)]
           @ fst (run B Awaiting_read later),
         snd (run B Awaiting_read later)))
   \<and> (MPG123_NEW_FORMAT B \<noteq> MPG123_DONE B \<and> MPG123_NEW_FORMAT B \<noteq> MPG123_NEED_MORE B
      \<and> snd (run B p before) = Awaiting_id3 out (MPG123_NEW_FORMAT B) bytes
      \<and> bytes \<le> int (length out) \<longrightarrow>
      run B p (before @ (Id3_answer (MPG123_OK B) info, fmt) # later) =
        (fst (run B p before)
           @ Emit_id3 (if has_tag info then 1 else 2) info
           # (if bytes > 0 then [Push_pcm (Buffer_slice out 0 (of_int bytes))] else [])
           @ [Mpg123_getformat, Emit_format fmt, Mpg123_read (safeBuffer B)]
           @ fst (run B Awaiting_read later),
         snd (run B Awaiting_read later)))
   \<and> (Emit_format f \<in> set (fst (handleRead B g buf st n)) \<longrightarrow>
        st = MPG123_NEW_FORMAT B \<and> f = g)
   \<and> (fst (run B q answers) = xs @ Emit_format f # ys \<longrightarrow>
        (\<exists>earlier a rest pcm.
           answers = earlier @ (a, f) # rest
           \<and> xs = fst (run B q earlier) @ pcm @ [Mpg123_getformat]
           \<and> ys = Mpg123_read (safeBuffer B) # fst (run B Awaiting_read rest)
           \<and> ((\<exists>k m w. snd (run B q earlier) = Awaiting_read
                  \<and> a = Read_answer (MPG123_NEW_FORMAT B) k m w)
               \<or> (\<exists>held k i. snd (run B q earlier) = Awaiting_id3 held (MPG123_NEW_FORMAT B) k
                  \<and> a = Id3_answer (MPG123_OK B) i))))"
proof (intro conjI impI)
  assume a: "MPG123_NEW_FORMAT B \<noteq> MPG123_DONE B \<and> MPG123_NEW_FORMAT B \<noteq> MPG123_NEED_MORE B
      \<and> bytes \<le> int (length out)"
  then show "handleRead B fmt out (MPG123_NEW_FORMAT B) bytes =
      ((if bytes > 0 then [Push_pcm (Buffer_slice out 0 (of_int bytes))] else [])
         @ [Mpg123_getformat, Emit_format fmt, Mpg123_read (safeBuffer B)],
       Awaiting_read)"
    by (intro handleRead_new_format) simp_all
next
  assume a: "MPG123_NEW_FORMAT B \<noteq> MPG123_DONE B \<and> MPG123_NEW_FORMAT B \<noteq> MPG123_NEED_MORE B
      \<and> snd (run B p before) = Awaiting_read \<and> bytes \<le> int (safeBuffer B)
      \<and> js_bitand meta (js_bool (MPG123_NEW_ID3 B \<noteq> 0)) \<noteq> 0"
  then have codes: "MPG123_NEW_FORMAT B \<noteq> MPG123_DONE B"
    "MPG123_NEW_FORMAT B \<noteq> MPG123_NEED_MORE B"
    and "bytes \<le> int (length (filled (safeBuffer B) written))"
    by (simp_all add: length_filled)
  note hr = handleRead_new_format[OF this, of fmt]
  show "run B p (before @ (Read_answer (MPG123_NEW_FORMAT B) bytes meta written, fmt) # later) =
      (fst (run B p before)
         @ (if bytes > 0
            then [Push_pcm (Buffer_slice (filled (safeBuffer B) written) 0 (of_int bytes))]
            else [])
         @ [Mpg123_getformat, Emit_format fmt, Mpg123_read (safeBuffer B)]
         @ fst (run B Awaiting_read later),
       snd (run B Awaiting_read later))"
    unfolding run_append using a by (simp add: read_callback_def hr split: prod.splits)
next
  assume a: "MPG123_NEW_FORMAT B \<noteq> MPG123_DONE B \<and> MPG123_NEW_FORMAT B \<noteq> MPG123_NEED_MORE B
      \<and> snd (run B p before) = Awaiting_id3 out (MPG123_NEW_FORMAT B) bytes
      \<and> bytes \<le> int (length out)"
  then have codes: "MPG123_NEW_FORMAT B \<noteq> MPG123_DONE B"
    "MPG123_NEW_FORMAT B \<noteq> MPG123_NEED_MORE B"
    and "bytes \<le> int (length out)"
    by simp_all
  note hr = handleRead_new_format[OF this, of fmt]
  show "run B p (before @ (Id3_answer (MPG123_OK B) info, fmt) # later) =
      (fst (run B p before)
         @ Emit_id3 (if has_tag info then 1 else 2) info
         # (if bytes > 0 then [Push_pcm (Buffer_slice out 0 (of_int bytes))] else [])
         @ [Mpg123_getformat, Emit_format fmt, Mpg123_read (safeBuffer B)]
         @ fst (run B Awaiting_read later),
       snd (run B Awaiting_read later))"
    unfolding run_append using a by (simp add: id3_callback_def hr split: prod.splits)
next
  assume "Emit_format f \<in> set (fst (handleRead B g buf st n))"
  from handleRead_format_only_new[OF this]
  show "st = MPG123_NEW_FORMAT B" "f = g"
    by simp_all
next
  assume "fst (run B q answers) = xs @ Emit_format f # ys"
  from run_format_shape[OF this]
  show "\<exists>earlier a rest pcm.
           answers = earlier @ (a, f) # rest
           \<and> xs = fst (run B q earlier) @ pcm @ [Mpg123_getformat]
           \<and> ys = Mpg123_read (safeBuffer B) # fst (run B Awaiting_read rest)
           \<and> ((\<exists>k m w. snd (run B q earlier) = Awaiting_read
                  \<and> a = Read_answer (MPG123_NEW_FORMAT B) k m w)
               \<or> (\<exists>held k i. snd (run B q earlier) = Awaiting_id3 held (MPG123_NEW_FORMAT B) k
                  \<and> a = Id3_answer (MPG123_OK B) i))" .
qed

text \<open>
  With the constants of mpg123.h: a read that reports the new format directly, and one
  that goes through the metadata call; in both runs a following read ends the chunk.
  The format event of the first run is then traced back to the answer that caused it.
\<close>

theorem format_event_before_later_pcm_witness:
  "MPG123_NEW_FORMAT mpg123_h \<noteq> MPG123_DONE mpg123_h
   \<and> MPG123_NEW_FORMAT mpg123_h \<noteq> MPG123_NEED_MORE mpg123_h
   \<and> handleRead mpg123_h (Format 208 44100 2) [1, 2, 3, 4] (MPG123_NEW_FORMAT mpg123_h) 2
       = ([Push_pcm (Buffer_slice [1, 2, 3, 4] 0 2), Mpg123_getformat,
           Emit_format (Format 208 44100 2), Mpg123_read (safeBuffer mpg123_h)],
          Awaiting_read)
   \<and> run mpg123_h Awaiting_feed
         ([(Feed_answer 0, Format 0 0 0)]
          @ (Read_answer (MPG123_NEW_FORMAT mpg123_h) 0 1 [], Format 208 44100 2)
          # [(Read_answer (-10) 2 1 [5, 6], Format 208 44100 2)])
       = ([Mpg123_read (safeBuffer mpg123_h)]
          @ []
          @ [Mpg123_getformat, Emit_format (Format 208 44100 2), Mpg123_read (safeBuffer mpg123_h)]
          @ [Push_pcm (Buffer_slice (filled (safeBuffer mpg123_h) [5, 6]) 0 2), Dec_done None],
          Chunk_done)
   \<and> run mpg123_h Awaiting_feed
         ([(Feed_answer 0, Format 0 0 0),
           (Read_answer (MPG123_NEW_FORMAT mpg123_h) 0 0 [], Format 0 0 0)]
          @ (Id3_answer (MPG123_OK mpg123_h) None, Format 208 44100 2)
          # [(Read_answer (-10) 0 1 [], Format 208 44100 2)])
       = ([Mpg123_read (safeBuffer mpg123_h), Mpg123_id3]
          @ Emit_id3 2 None
          # []
          @ [Mpg123_getformat, Emit_format (Format 208 44100 2), Mpg123_read (safeBuffer mpg123_h)]
          @ [Dec_done None],
          Chunk_done)
   \<and> Emit_format (Format 208 44100 2)
        \<in> set (fst (handleRead mpg123_h (Format 208 44100 2) [1, 2, 3, 4] (-11) 2))
   \<and> (-11) = MPG123_NEW_FORMAT mpg123_h
   \<and> fst (run mpg123_h Awaiting_feed
         [(Feed_answer 0, Format 0 0 0),
          (Read_answer (-11) 0 1 [], Format 208 44100 2),
          (Read_answer (-10) 2 1 [5, 6], Format 208 44100 2)])
       = [Mpg123_read 73728, Mpg123_getformat] @ Emit_format (Format 208 44100 2)
         # [Mpg123_read 73728, Push_pcm (Buffer_slice (filled 73728 [5, 6]) 0 2), Dec_done None]
   \<and> (\<exists>earlier a rest pcm.
         [(Feed_answer 0, Format 0 0 0),
          (Read_answer (-11) 0 1 [], Format 208 44100 2),
          (Read_answer (-10) 2 1 [5, 6], Format 208 44100 2)]
           = earlier @ (a, Format 208 44100 2) # rest
         \<and> [Mpg123_read 73728, Mpg123_getformat]
           = fst (run mpg123_h Awaiting_feed earlier) @ pcm @ [Mpg123_getformat]
         \<and> [Mpg123_read 73728, Push_pcm (Buffer_slice (filled 73728 [5, 6]) 0 2), Dec_done None]
           = Mpg123_read (safeBuffer mpg123_h) # fst (run mpg123_h Awaiting_read rest)
         \<and> ((\<exists>k m w. snd (run mpg123_h Awaiting_feed earlier) = Awaiting_read
                \<and> a = Read_answer (MPG123_NEW_FORMAT mpg123_h) k m w)
             \<or> (\<exists>held k i. snd (run mpg123_h Awaiting_feed earlier)
                    = Awaiting_id3 held (MPG123_NEW_FORMAT mpg123_h) k
                \<and> a = Id3_answer (MPG123_OK mpg123_h) i)))"
proof -
  have codes: "MPG123_NEW_FORMAT mpg123_h \<noteq> MPG123_DONE mpg123_h"
    "MPG123_NEW_FORMAT mpg123_h \<noteq> MPG123_NEED_MORE mpg123_h"
    by (simp_all add: mpg123_h_def)
  have eval: "run mpg123_h Awaiting_feed [(Feed_answer 0, Format 0 0 0)]
      = ([Mpg123_read (safeBuffer mpg123_h)], Awaiting_read)"
    "run mpg123_h Awaiting_feed
       [(Feed_answer 0, Format 0 0 0),
        (Read_answer (MPG123_NEW_FORMAT mpg123_h) 0 0 [], Format 0 0 0)]
      = ([Mpg123_read (safeBuffer mpg123_h), Mpg123_id3],
         Awaiting_id3 (filled (safeBuffer mpg123_h) []) (MPG123_NEW_FORMAT mpg123_h) 0)"
    "run mpg123_h Awaiting_read [(Read_answer (-10) 2 1 [5, 6], Format 208 44100 2)]
      = ([Push_pcm (Buffer_slice (filled (safeBuffer mpg123_h) [5, 6]) 0 2), Dec_done None],
         Chunk_done)"
    "run mpg123_h Awaiting_read [(Read_answer (-10) 0 1 [], Format 208 44100 2)]
      = ([Dec_done None], Chunk_done)"
    by (simp_all add: feed_callback_def read_callback_def read_def handleRead_def js_bool_def
        js_bitand_1_1 js_bitand_0 length_filled mpg123_h_def)
  note dec_eval = feed_callback_def read_callback_def id3_callback_def read_def handleRead_def
    js_bool_def js_bitand_1_1 js_bitand_0 length_filled has_tag_def mpg123_h_def
  have fits: "MPG123_NEW_FORMAT mpg123_h \<noteq> MPG123_DONE mpg123_h
      \<and> MPG123_NEW_FORMAT mpg123_h \<noteq> MPG123_NEED_MORE mpg123_h
      \<and> 2 \<le> int (length [1, 2, 3, 4 :: byte])"
    using codes by simp
  have direct: "MPG123_NEW_FORMAT mpg123_h \<noteq> MPG123_DONE mpg123_h
      \<and> MPG123_NEW_FORMAT mpg123_h \<noteq> MPG123_NEED_MORE mpg123_h
      \<and> snd (run mpg123_h Awaiting_feed [(Feed_answer 0, Format 0 0 0)]) = Awaiting_read
      \<and> 0 \<le> int (safeBuffer mpg123_h)
      \<and> js_bitand 1 (js_bool (MPG123_NEW_ID3 mpg123_h \<noteq> 0)) \<noteq> 0"
    unfolding eval snd_conv by (simp add: dec_eval)
  have via_id3: "MPG123_NEW_FORMAT mpg123_h \<noteq> MPG123_DONE mpg123_h
      \<and> MPG123_NEW_FORMAT mpg123_h \<noteq> MPG123_NEED_MORE mpg123_h
      \<and> snd (run mpg123_h Awaiting_feed
         [(Feed_answer 0, Format 0 0 0),
          (Read_answer (MPG123_NEW_FORMAT mpg123_h) 0 0 [], Format 0 0 0)])
        = Awaiting_id3 (filled (safeBuffer mpg123_h) []) (MPG123_NEW_FORMAT mpg123_h) 0
      \<and> 0 \<le> int (length (filled (safeBuffer mpg123_h) []))"
    unfolding eval snd_conv using codes by simp
  have emitted: "Emit_format (Format 208 44100 2)
        \<in> set (fst (handleRead mpg123_h (Format 208 44100 2) [1, 2, 3, 4] (-11) 2))"
    by (simp add: dec_eval)
  have trace: "fst (run mpg123_h Awaiting_feed
         [(Feed_answer 0, Format 0 0 0),
          (Read_answer (-11) 0 1 [], Format 208 44100 2),
          (Read_answer (-10) 2 1 [5, 6], Format 208 44100 2)])
       = [Mpg123_read 73728, Mpg123_getformat] @ Emit_format (Format 208 44100 2)
         # [Mpg123_read 73728, Push_pcm (Buffer_slice (filled 73728 [5, 6]) 0 2), Dec_done None]"
    by (simp add: dec_eval)
  note claim = format_event_before_later_pcm[where B=mpg123_h]
  note c1 = claim[THEN conjunct1, rule_format, OF fits, where fmt="Format 208 44100 2"]
  note c2 = claim[THEN conjunct2, THEN conjunct1, rule_format, OF direct,
      where written="[]" and fmt="Format 208 44100 2"
        and later="[(Read_answer (-10) 2 1 [5, 6], Format 208 44100 2)]"]
  note c3 = claim[THEN conjunct2, THEN conjunct2, THEN conjunct1, rule_format, OF via_id3,
      where info=None and fmt="Format 208 44100 2"
        and later="[(Read_answer (-10) 0 1 [], Format 208 44100 2)]"]
  note c4 = claim[THEN conjunct2, THEN conjunct2, THEN conjunct2, THEN conjunct1, rule_format,
      OF emitted]
  note c5 = claim[THEN conjunct2, THEN conjunct2, THEN conjunct2, THEN conjunct2, rule_format,
      OF trace]
  have first: "handleRead mpg123_h (Format 208 44100 2) [1, 2, 3, 4] (MPG123_NEW_FORMAT mpg123_h) 2
       = ([Push_pcm (Buffer_slice [1, 2, 3, 4] 0 2), Mpg123_getformat,
           Emit_format (Format 208 44100 2), Mpg123_read (safeBuffer mpg123_h)],
          Awaiting_read)"
    using c1 by simp
  have second: "run mpg123_h Awaiting_feed
         ([(Feed_answer 0, Format 0 0 0)]
          @ (Read_answer (MPG123_NEW_FORMAT mpg123_h) 0 1 [], Format 208 44100 2)
          # [(Read_answer (-10) 2 1 [5, 6], Format 208 44100 2)])
       = ([Mpg123_read (safeBuffer mpg123_h)]
          @ []
          @ [Mpg123_getformat, Emit_format (Format 208 44100 2), Mpg123_read (safeBuffer mpg123_h)]
          @ [Push_pcm (Buffer_slice (filled (safeBuffer mpg123_h) [5, 6]) 0 2), Dec_done None],
          Chunk_done)"
    using c2 unfolding eval fst_conv snd_conv by simp
  have third: "run mpg123_h Awaiting_feed
         ([(Feed_answer 0, Format 0 0 0),
           (Read_answer (MPG123_NEW_FORMAT mpg123_h) 0 0 [], Format 0 0 0)]
          @ (Id3_answer (MPG123_OK mpg123_h) None, Format 208 44100 2)
          # [(Read_answer (-10) 0 1 [], Format 208 44100 2)])
       = ([Mpg123_read (safeBuffer mpg123_h), Mpg123_id3]
          @ Emit_id3 2 None
          # []
          @ [Mpg123_getformat, Emit_format (Format 208 44100 2), Mpg123_read (safeBuffer mpg123_h)]
          @ [Dec_done None],
          Chunk_done)"
    using c3 unfolding eval fst_conv snd_conv by (simp add: has_tag_def)
  have fourth: "(-11) = MPG123_NEW_FORMAT mpg123_h"
    using c4 by simp
  from codes first second third emitted fourth trace c5 show ?thesis
    by (intro conjI) assumption+
qed

text \<open>
  C8. When the feed callback receives a value other than \<open>MPG123_OK\<close>, the chunk fails
  with the feed error carrying that value and no read is issued, whatever the engine
  would have answered. When the status of a read is none of DONE, NEED_MORE, NEW_FORMAT
  and OK, \<open>handleRead\<close> pushes the bytes that came with it and fails the chunk with the
  read error carrying the status; so do the two callbacks that hand the status to it.
\<close>

theorem feed_and_read_failures:
  "(ret \<noteq> MPG123_OK B \<longrightarrow>
      Decoder_transform B chunk ((Feed_answer ret, fmt) # later)
        = ([Mpg123_feed chunk (length chunk), Dec_done (Some (Feed_error ret))], Chunk_done))
   \<and> (st \<noteq> MPG123_DONE B \<and> st \<noteq> MPG123_NEED_MORE B \<and> st \<noteq> MPG123_NEW_FORMAT B
        \<and> st \<noteq> MPG123_OK B \<and> bytes \<le> int (length out) \<longrightarrow>
      handleRead B fmt out st bytes
        = ((if bytes > 0 then [Push_pcm (Buffer_slice out 0 (of_int bytes))] else [])
             @ [Dec_done (Some (Read_error st))],
           Chunk_done)
      \<and> id3_callback B fmt out st bytes (MPG123_OK B) info
        = (Emit_id3 (if has_tag info then 1 else 2) info
             # (if bytes > 0 then [Push_pcm (Buffer_slice out 0 (of_int bytes))] else [])
             @ [Dec_done (Some (Read_error st))],
           Chunk_done)
      \<and> (js_bitand meta (js_bool (MPG123_NEW_ID3 B \<noteq> 0)) \<noteq> 0 \<longrightarrow>
           read_callback B fmt out st bytes meta
             = ((if bytes > 0 then [Push_pcm (Buffer_slice out 0 (of_int bytes))] else [])
                  @ [Dec_done (Some (Read_error st))],
                Chunk_done)))"
  by (auto simp: Decoder_transform_def feed_callback_def run_Chunk_done handleRead_def Let_def
      id3_callback_def read_callback_def)

text \<open>
  With the constants of mpg123.h and the generic error code -1.
\<close>

theorem feed_and_read_failures_witness:
  "(-1) \<noteq> MPG123_OK mpg123_h
   \<and> Decoder_transform mpg123_h [1, 2, 3]
        ((Feed_answer (-1), Format 0 0 0) # [(Read_answer 0 2 1 [5, 6], Format 0 0 0)])
       = ([Mpg123_feed [1, 2, 3] (length [1, 2, 3 :: byte]), Dec_done (Some (Feed_error (-1)))],
          Chunk_done)
   \<and> handleRead mpg123_h (Format 0 0 0) [5, 6, 7] (-1) 2
       = ([Push_pcm (Buffer_slice [5, 6, 7] 0 2), Dec_done (Some (Read_error (-1)))], Chunk_done)
   \<and> id3_callback mpg123_h (Format 0 0 0) [5, 6, 7] (-1) 2 (MPG123_OK mpg123_h) None
       = ([Emit_id3 2 None, Push_pcm (Buffer_slice [5, 6, 7] 0 2),
           Dec_done (Some (Read_error (-1)))], Chunk_done)
   \<and> read_callback mpg123_h (Format 0 0 0) [5, 6, 7] (-1) 2 1
       = ([Push_pcm (Buffer_slice [5, 6, 7] 0 2), Dec_done (Some (Read_error (-1)))], Chunk_done)"
proof -
  have feed: "(-1) \<noteq> MPG123_OK mpg123_h"
    by (simp add: mpg123_h_def)
  have status: "(-1) \<noteq> MPG123_DONE mpg123_h \<and> (-1) \<noteq> MPG123_NEED_MORE mpg123_h
      \<and> (-1) \<noteq> MPG123_NEW_FORMAT mpg123_h \<and> (-1) \<noteq> MPG123_OK mpg123_h
      \<and> 2 \<le> int (length [5, 6, 7 :: byte])"
    by (simp add: mpg123_h_def)
  have bit: "js_bitand 1 (js_bool (MPG123_NEW_ID3 mpg123_h \<noteq> 0)) \<noteq> 0"
    by (simp add: mpg123_h_def js_bool_def js_bitand_1_1)
  note claim = feed_and_read_failures[where B=mpg123_h and ret="-1" and st="-1" and bytes=2
      and out="[5, 6, 7]" and chunk="[1, 2, 3]" and fmt="Format 0 0 0" and info=None and meta=1
      and later="[(Read_answer 0 2 1 [5, 6], Format 0 0 0)]"]
  from claim[THEN conjunct1, rule_format, OF feed] claim[THEN conjunct2, rule_format, OF status]
    feed bit
  show ?thesis by (simp add: has_tag_def)
qed

end
